theory Spec2Isabelle
  imports Complex_Main "HOL-Library.Word" "HOL-Library.Sublist"
begin

section \<open>Machine types of the Go source\<close>

text \<open>
  \<^verbatim>\<open>int64\<close>, \<^verbatim>\<open>uint64\<close> and \<^verbatim>\<open>time.Duration\<close> are 64-bit words: \<open>+\<close> wraps as Go's
  does, and the signed order is \<open>\<le>s\<close> and \<open><s\<close>. Go's \<^verbatim>\<open>int\<close> is used in the modelled
  code only as a slice index and a part number, where it is compared and decremented
  once; it is an \<open>int\<close> here and every index is checked against the slice's bounds, as
  the Go runtime does.
\<close>

type_synonym int64 = "64 word"
type_synonym uint64 = "64 word"
type_synonym Duration = "64 word"

text \<open>
  A run-time panic of the Go program is a value. A function that can panic returns
  \<open>panic + 'a\<close>, with \<open>Inl\<close> the panic. \<open>OutOfMemory\<close> is the fatal error of the
  allocator, which ends the program as an unrecovered panic does.
\<close>

datatype panic =
  IndexOutOfRange | MakesliceLenOutOfRange | OutOfMemory | CloseOfClosedChannel
| CloseOfNilChannel

text \<open>
  Go's \<^verbatim>\<open>error\<close> values. \<open>io_EOF\<close> is the one value \<^verbatim>\<open>io.EOF\<close> of the standard library,
  which the code recognises by comparing with it; \<open>GoError\<close> is any other error of the
  standard library or of a callback, with its message (an error whose message is
  \<^verbatim>\<open>EOF\<close> is not \<^verbatim>\<open>io.EOF\<close>); \<open>TosClientError\<close> is the SDK's client error, with its
  message and its cause. \<open>Error\<close> is the method \<^verbatim>\<open>Error()\<close>.
\<close>

datatype error = io_EOF | GoError string | TosClientError string error

fun Error :: "error \<Rightarrow> string" where
  "Error io_EOF = ''EOF''"
| "Error (GoError m) = m"
| "Error (TosClientError m _) = m"

text \<open>
  Modelled from the spec: \<^verbatim>\<open>newTosClientError(message, cause)\<close> is called by the code
  under \<^verbatim>\<open>src/\<close> and declared elsewhere in the repository; the spec calls its result a
  client error. It builds the client error that keeps both arguments.
\<close>

definition newTosClientError :: "string \<Rightarrow> error \<Rightarrow> error" where
  "newTosClientError message cause = TosClientError message cause"

fun is_client_error :: "error \<Rightarrow> bool" where
  "is_client_error (TosClientError _ _) = True"
| "is_client_error (GoError _) = False"
| "is_client_error io_EOF = False"

text \<open>
  \<^verbatim>\<open>time.Time\<close> is compared by the checkpoint code with Go's \<^verbatim>\<open>!=\<close>, which on a struct
  compares the fields: the wall-clock word, the extended seconds and the location
  pointer (an address, \<open>0\<close> for \<^verbatim>\<open>nil\<close>).
\<close>

record Time =
  wall :: uint64
  ext :: int64
  loc :: nat

section \<open>Checkpoints (\<^verbatim>\<open>type_internal.go\<close>)\<close>

subsection \<open>The download checkpoint\<close>

record downloadObjectInfo =
  Etag :: string
  HashCrc64ecma :: uint64
  LastModified :: Time
  ObjectSize :: int64

record downloadFileInfo =
  FilePath :: string
  TempFilePath :: string

record downloadPartInfo =
  PartNumber :: int
  RangeStart :: int64
  RangeEnd :: int64
  HashCrc64ecma :: uint64
  IsCompleted :: bool

record downloadCheckpoint =
  checkpointPath :: string
  Bucket :: string
  Key :: string
  VersionID :: string
  PartSize :: int64
  IfMatch :: string
  IfModifiedSince :: Time
  IfNoneMatch :: string
  IfUnmodifiedSince :: Time
  SSECAlgorithm :: string
  SSECKeyMD5 :: string
  ObjectInfo :: downloadObjectInfo
  FileInfo :: downloadFileInfo
  PartsInfo :: "downloadPartInfo list"

text \<open>
  Modelled from the spec: the struct declarations of \<^verbatim>\<open>DownloadFileInput\<close> and
  \<^verbatim>\<open>HeadObjectV2Output\<close> are not under \<^verbatim>\<open>src/\<close>. The records below hold the fields
  that \<^verbatim>\<open>downloadCheckpoint.Valid\<close> reads, with the types of the checkpoint fields they
  are compared with: the request's identity, part size, conditional-request headers,
  encryption parameters and local file path, and the live remote metadata (entity tag,
  checksum, last-modified time, size).
\<close>

record DownloadFileInput =
  Bucket :: string
  Key :: string
  VersionID :: string
  PartSize :: int64
  IfMatch :: string
  IfModifiedSince :: Time
  IfNoneMatch :: string
  IfUnmodifiedSince :: Time
  SSECAlgorithm :: string
  SSECKeyMD5 :: string
  FilePath :: string

record HeadObjectV2Output =
  ETag :: string
  HashCrc64ecma :: uint64
  LastModified :: Time
  ContentLength :: int64

text \<open>
  \<^verbatim>\<open>func (c *downloadCheckpoint) Valid(input *DownloadFileInput, head *HeadObjectV2Output) bool\<close>:
  three guards, each returning \<^verbatim>\<open>false\<close>, then \<^verbatim>\<open>true\<close>.
\<close>

definition downloadCheckpoint_Valid ::
  "downloadCheckpoint \<Rightarrow> DownloadFileInput \<Rightarrow> HeadObjectV2Output \<Rightarrow> bool" where
  "downloadCheckpoint_Valid c input head =
     (if downloadCheckpoint.Bucket c \<noteq> DownloadFileInput.Bucket input
         \<or> downloadCheckpoint.Key c \<noteq> DownloadFileInput.Key input
         \<or> downloadCheckpoint.VersionID c \<noteq> DownloadFileInput.VersionID input
         \<or> downloadCheckpoint.PartSize c \<noteq> DownloadFileInput.PartSize input
         \<or> downloadCheckpoint.IfMatch c \<noteq> DownloadFileInput.IfMatch input
         \<or> downloadCheckpoint.IfModifiedSince c \<noteq> DownloadFileInput.IfModifiedSince input
         \<or> downloadCheckpoint.IfNoneMatch c \<noteq> DownloadFileInput.IfNoneMatch input
         \<or> downloadCheckpoint.IfUnmodifiedSince c \<noteq> DownloadFileInput.IfUnmodifiedSince input
         \<or> downloadCheckpoint.SSECAlgorithm c \<noteq> DownloadFileInput.SSECAlgorithm input
         \<or> downloadCheckpoint.SSECKeyMD5 c \<noteq> DownloadFileInput.SSECKeyMD5 input
      then False
      else if downloadObjectInfo.Etag (ObjectInfo c) \<noteq> HeadObjectV2Output.ETag head
         \<or> downloadObjectInfo.HashCrc64ecma (ObjectInfo c) \<noteq> HeadObjectV2Output.HashCrc64ecma head
         \<or> downloadObjectInfo.LastModified (ObjectInfo c) \<noteq> HeadObjectV2Output.LastModified head
         \<or> downloadObjectInfo.ObjectSize (ObjectInfo c) \<noteq> HeadObjectV2Output.ContentLength head
      then False
      else if downloadFileInfo.FilePath (downloadCheckpoint.FileInfo c) \<noteq> DownloadFileInput.FilePath input
      then False
      else True)"

text \<open>
  \<^verbatim>\<open>c.PartsInfo[part.PartNumber-1] = part\<close>: the Go runtime panics when the index is
  outside the slice. The decrement of \<^verbatim>\<open>math.MinInt\<close> wraps to \<^verbatim>\<open>math.MaxInt\<close>, which is
  outside every slice as the negative index of the model is.
\<close>

definition downloadCheckpoint_UpdatePartsInfo ::
  "downloadCheckpoint \<Rightarrow> downloadPartInfo \<Rightarrow> panic + downloadCheckpoint" where
  "downloadCheckpoint_UpdatePartsInfo c part =
     (let i = downloadPartInfo.PartNumber part - 1 in
      if 0 \<le> i \<and> i < int (length (downloadCheckpoint.PartsInfo c))
      then Inr (c\<lparr>downloadCheckpoint.PartsInfo := (downloadCheckpoint.PartsInfo c)[nat i := part]\<rparr>)
      else Inl IndexOutOfRange)"

subsection \<open>The upload checkpoint\<close>

record fileInfo =
  LastModified :: int64
  Size :: int64

text \<open>
  \<^verbatim>\<open>uploadID *string\<close> is a pointer that is not serialised; it is the address it holds
  (\<open>None\<close> for \<^verbatim>\<open>nil\<close>).
\<close>

record uploadPartInfo =
  uploadID :: "nat option"
  PartNumber :: int
  PartSize :: int64
  Offset :: uint64
  ETag :: string
  HashCrc64ecma :: uint64
  IsCompleted :: bool

record uploadCheckpoint =
  checkpointPath :: string
  Bucket :: string
  Key :: string
  UploadID :: string
  PartSize :: int64
  SSECAlgorithm :: string
  SSECKeyMD5 :: string
  EncodingType :: string
  FilePath :: string
  FileInfo :: fileInfo
  PartsInfo :: "uploadPartInfo list"

text \<open>
  \<^verbatim>\<open>os.FileInfo\<close> is an interface of the standard library. \<^verbatim>\<open>uploadCheckpoint.Valid\<close>
  calls \<^verbatim>\<open>Size()\<close> and \<^verbatim>\<open>ModTime().Unix()\<close> on it, and the record holds what these two
  calls return: the size in bytes and the modification time in whole seconds since the
  Unix epoch.
\<close>

record os_FileInfo =
  Size :: int64
  ModTime_Unix :: int64

text \<open>
  \<^verbatim>\<open>func (u *uploadCheckpoint) Valid(uploadFileStat os.FileInfo, bucketName, key, uploadFile string) bool\<close>
\<close>

definition uploadCheckpoint_Valid ::
  "uploadCheckpoint \<Rightarrow> os_FileInfo \<Rightarrow> string \<Rightarrow> string \<Rightarrow> string \<Rightarrow> bool" where
  "uploadCheckpoint_Valid u uploadFileStat bucketName key uploadFile =
     (if UploadID u = [] \<or> uploadCheckpoint.Bucket u \<noteq> bucketName
         \<or> uploadCheckpoint.Key u \<noteq> key \<or> uploadCheckpoint.FilePath u \<noteq> uploadFile
      then False
      else if fileInfo.Size (uploadCheckpoint.FileInfo u) \<noteq> os_FileInfo.Size uploadFileStat
         \<or> fileInfo.LastModified (uploadCheckpoint.FileInfo u) \<noteq> ModTime_Unix uploadFileStat
      then False
      else True)"

text \<open>
  Modelled from the spec: the struct declaration of \<^verbatim>\<open>UploadedPartV2\<close> is not under
  \<^verbatim>\<open>src/\<close>; \<^verbatim>\<open>GetParts\<close> fills its two fields, the part number and the entity tag of an
  uploaded part.
\<close>

record UploadedPartV2 =
  PartNumber :: int
  ETag :: string

text \<open>
  \<^verbatim>\<open>GetParts\<close>: the \<^verbatim>\<open>for _, p := range u.PartsInfo\<close> loop, appending to \<^verbatim>\<open>parts\<close>, which
  starts empty (\<^verbatim>\<open>make([]UploadedPartV2, 0, len(u.PartsInfo))\<close>).
\<close>

fun GetParts_loop :: "uploadPartInfo list \<Rightarrow> UploadedPartV2 list \<Rightarrow> UploadedPartV2 list" where
  "GetParts_loop [] parts = parts"
| "GetParts_loop (p # ps) parts =
     GetParts_loop ps
       (parts @ [\<lparr>UploadedPartV2.PartNumber = uploadPartInfo.PartNumber p,
                  ETag = uploadPartInfo.ETag p\<rparr>])"

definition GetParts :: "uploadCheckpoint \<Rightarrow> UploadedPartV2 list" where
  "GetParts u = GetParts_loop (uploadCheckpoint.PartsInfo u) []"

definition uploadCheckpoint_UpdatePartsInfo ::
  "uploadCheckpoint \<Rightarrow> uploadPartInfo \<Rightarrow> panic + uploadCheckpoint" where
  "uploadCheckpoint_UpdatePartsInfo u part =
     (let i = uploadPartInfo.PartNumber part - 1 in
      if 0 \<le> i \<and> i < int (length (uploadCheckpoint.PartsInfo u))
      then Inr (u\<lparr>uploadCheckpoint.PartsInfo := (uploadCheckpoint.PartsInfo u)[nat i := part]\<rparr>)
      else Inl IndexOutOfRange)"

text \<open>
  The index identity of the spec: the record at index \<open>i\<close> has part number \<open>i + 1\<close>.
\<close>

definition download_index_identity :: "downloadPartInfo list \<Rightarrow> bool" where
  "download_index_identity ps =
     list_all (\<lambda>i. downloadPartInfo.PartNumber (ps ! i) = int i + 1) [0..<length ps]"

definition upload_index_identity :: "uploadPartInfo list \<Rightarrow> bool" where
  "upload_index_identity ps =
     list_all (\<lambda>i. uploadPartInfo.PartNumber (ps ! i) = int i + 1) [0..<length ps]"

subsection \<open>Writing a checkpoint to its file\<close>

text \<open>
  \<^verbatim>\<open>json.Marshal\<close> and \<^verbatim>\<open>ioutil.WriteFile\<close> belong to the standard library and are
  parameters: \<open>marshal\<close> returns the bytes or an error, \<open>writeFile path bytes perm\<close>
  acts on the file system \<open>'fs\<close> and returns an error or \<^verbatim>\<open>nil\<close>. \<^verbatim>\<open>WriteToFile\<close> returns
  its own error (or \<open>None\<close> for \<^verbatim>\<open>nil\<close>) and the file system it leaves.
\<close>

type_synonym bytes = "8 word list"

definition perm_0666 :: nat where
  "perm_0666 = 6 * 64 + 6 * 8 + 6"

type_synonym 'fs WriteFile = "string \<Rightarrow> bytes \<Rightarrow> nat \<Rightarrow> 'fs \<Rightarrow> error option \<times> 'fs"

definition downloadCheckpoint_WriteToFile ::
  "(downloadCheckpoint \<Rightarrow> error + bytes) \<Rightarrow> 'fs WriteFile \<Rightarrow> downloadCheckpoint \<Rightarrow> 'fs
     \<Rightarrow> error option \<times> 'fs" where
  "downloadCheckpoint_WriteToFile marshal writeFile c fs =
     (case marshal c of
        Inl err \<Rightarrow> (Some (newTosClientError (Error err) err), fs)
      | Inr buffer \<Rightarrow>
          (case writeFile (downloadCheckpoint.checkpointPath c) buffer perm_0666 fs of
             (Some err, fs') \<Rightarrow> (Some (newTosClientError (Error err) err), fs')
           | (None, fs') \<Rightarrow> (None, fs')))"

definition uploadCheckpoint_WriteToFile ::
  "(uploadCheckpoint \<Rightarrow> error + bytes) \<Rightarrow> 'fs WriteFile \<Rightarrow> uploadCheckpoint \<Rightarrow> 'fs
     \<Rightarrow> error option \<times> 'fs" where
  "uploadCheckpoint_WriteToFile marshal writeFile u fs =
     (case marshal u of
        Inl err \<Rightarrow> (Some (newTosClientError (Error err) err), fs)
      | Inr result \<Rightarrow>
          (case writeFile (uploadCheckpoint.checkpointPath u) result perm_0666 fs of
             (Some err, fs') \<Rightarrow> (Some (newTosClientError (Error err) err), fs')
           | (None, fs') \<Rightarrow> (None, fs')))"

section \<open>The retry policy\<close>

datatype retryAction = NoRetry | Retry

definition DefaultRetryBackoffBase :: Duration where
  "DefaultRetryBackoffBase = 100 * 1000000"

text \<open>
  \<^verbatim>\<open>exponentialBackoff\<close>: the loop writes \<^verbatim>\<open>base\<close> at index \<open>i\<close> and multiplies it by one.
\<close>

function exponentialBackoff_loop :: "nat \<Rightarrow> Duration \<Rightarrow> Duration list \<Rightarrow> Duration list" where
  "exponentialBackoff_loop i base backoffs =
     (if i < length backoffs
      then exponentialBackoff_loop (i + 1) (base * 1) (backoffs[i := base])
      else backoffs)"
  by pat_completeness auto
termination
  by (relation "measure (\<lambda>(i, base, backoffs). length backoffs - i)") auto

declare exponentialBackoff_loop.simps [simp del]

text \<open>
  \<^verbatim>\<open>make([]time.Duration, n)\<close> asks the Go runtime for \<open>n\<close> elements of eight bytes. The
  runtime panics (\<^verbatim>\<open>makeslice: len out of range\<close>) when \<open>n\<close> is negative or the size is
  above its constant \<^verbatim>\<open>maxAlloc\<close>, a number of bytes that depends on the platform and
  that the address type holds, so that a size which overflows that type is above it
  too; it ends the program when the size is above the memory it can still get, the
  number of bytes \<open>avail\<close>; otherwise the slice has \<open>n\<close> zeros. Both numbers are
  parameters.
\<close>

definition make_Durations :: "nat \<Rightarrow> nat \<Rightarrow> int \<Rightarrow> panic + Duration list" where
  "make_Durations maxAlloc avail n =
     (if n < 0 \<or> int maxAlloc < 8 * n then Inl MakesliceLenOutOfRange
      else if int avail < 8 * n then Inl OutOfMemory
      else Inr (replicate (nat n) 0))"

definition exponentialBackoff :: "nat \<Rightarrow> nat \<Rightarrow> int \<Rightarrow> Duration \<Rightarrow> panic + Duration list" where
  "exponentialBackoff maxAlloc avail n base =
     (case make_Durations maxAlloc avail n of
        Inl p \<Rightarrow> Inl p
      | Inr backoffs \<Rightarrow> Inr (exponentialBackoff_loop 0 base backoffs))"

text \<open>
  The jitter is a \<^verbatim>\<open>float64\<close>; it is a real number here. \<^verbatim>\<open>SetJitter\<close> only compares it
  with 0 and 1 and stores it, and nothing else in the source reads it. A NaN, which
  passes both comparisons and is stored, has no counterpart among the reals.
\<close>

record retryer =
  backoff :: "Duration list"
  jitter :: real

definition SetBackoff :: "Duration list \<Rightarrow> retryer \<Rightarrow> retryer" where
  "SetBackoff b r = r\<lparr>backoff := b\<rparr>"

definition newRetryer :: "Duration list \<Rightarrow> retryer" where
  "newRetryer b = \<lparr>backoff = b, jitter = 0\<rparr>"

definition SetJitter :: "real \<Rightarrow> retryer \<Rightarrow> retryer" where
  "SetJitter jit r = (if jit < 0 \<or> jit > 1 then r else r\<lparr>jitter := jit\<rparr>)"

text \<open>\<^verbatim>\<open>calcSleep\<close> returns \<^verbatim>\<open>r.backoff[i]\<close>, a panic outside the slice.\<close>

definition calcSleep :: "retryer \<Rightarrow> int \<Rightarrow> panic + Duration" where
  "calcSleep r i =
     (if 0 \<le> i \<and> i < int (length (backoff r)) then Inr (backoff r ! nat i)
      else Inl IndexOutOfRange)"

text \<open>
  The world the retry policy runs in is a state \<open>'s\<close>. A \<^verbatim>\<open>context.Context\<close> is its two
  methods that \<^verbatim>\<open>worthToRetry\<close> calls, read in the current state: \<^verbatim>\<open>Err()\<close>, and
  \<^verbatim>\<open>Deadline()\<close> as the deadline's \<^verbatim>\<open>UnixNano()\<close> or \<open>None\<close> when no deadline is set. The
  \<^verbatim>\<open>nil\<close> context is \<open>None\<close>. The runtime gives \<^verbatim>\<open>time.Now().UnixNano()\<close> and the effect
  of \<^verbatim>\<open>time.Sleep\<close> on the state.
\<close>

record 's Context =
  Err :: "'s \<Rightarrow> error option"
  Deadline :: "'s \<Rightarrow> int64 option"

record 's runtime =
  Now_UnixNano :: "'s \<Rightarrow> int64"
  Sleep :: "Duration \<Rightarrow> 's \<Rightarrow> 's"

definition worthToRetry :: "'s runtime \<Rightarrow> 's Context option \<Rightarrow> Duration \<Rightarrow> 's \<Rightarrow> bool" where
  "worthToRetry rt ctx waitTime s =
     (case ctx of
        None \<Rightarrow> True
      | Some c \<Rightarrow>
          if Err c s \<noteq> None then False
          else (case Deadline c s of
                  None \<Rightarrow> True
                | Some deadline \<Rightarrow> Now_UnixNano rt s + waitTime \<le>s deadline))"

text \<open>
  \<^verbatim>\<open>Run\<close>: \<open>work\<close> acts on the state and returns its error (\<open>None\<close> for \<^verbatim>\<open>nil\<close>), the
  classifier is a function of the error. The model also returns the trace of what
  \<^verbatim>\<open>Run\<close> did, in order: each call of \<open>work\<close> with its result, and each sleep with its
  duration. \<open>Run_loop\<close> is the \<^verbatim>\<open>for\<close> loop entered with index \<open>i\<close>, last error \<open>ferr\<close>,
  state \<open>s\<close> and the trace so far.
\<close>

datatype event = Worked "error option" | Slept Duration

function Run_loop ::
  "'s runtime \<Rightarrow> retryer \<Rightarrow> 's Context option \<Rightarrow> ('s \<Rightarrow> error option \<times> 's)
     \<Rightarrow> (error option \<Rightarrow> retryAction) \<Rightarrow> nat \<Rightarrow> error option \<Rightarrow> 's \<Rightarrow> event list
     \<Rightarrow> panic + (error option \<times> 's \<times> event list)" where
  "Run_loop rt r ctx work classifier i ferr s tr =
     (if i < length (backoff r) \<and> classifier ferr = Retry
      then (case calcSleep r (int i) of
              Inl p \<Rightarrow> Inl p
            | Inr sleepTime \<Rightarrow>
                if \<not> worthToRetry rt ctx sleepTime s then Inr (ferr, s, tr)
                else (case work (Sleep rt sleepTime s) of
                        (ferr', s') \<Rightarrow>
                          Run_loop rt r ctx work classifier (i + 1) ferr' s'
                            (tr @ [Slept sleepTime, Worked ferr'])))
      else Inr (ferr, s, tr))"
  by pat_completeness auto
termination
  by (relation "measure (\<lambda>(rt, r, ctx, work, classifier, i, ferr, s, tr). length (backoff r) - i)")
    auto

declare Run_loop.simps [simp del]

definition Run ::
  "'s runtime \<Rightarrow> retryer \<Rightarrow> 's Context option \<Rightarrow> ('s \<Rightarrow> error option \<times> 's)
     \<Rightarrow> (error option \<Rightarrow> retryAction) \<Rightarrow> 's
     \<Rightarrow> panic + (error option \<times> 's \<times> event list)" where
  "Run rt r ctx work classifier s =
     (case work s of
        (ferr, s') \<Rightarrow> Run_loop rt r ctx work classifier 0 ferr s' [Worked ferr])"

definition is_Worked :: "event \<Rightarrow> bool" where
  "is_Worked e = (case e of Worked _ \<Rightarrow> True | Slept _ \<Rightarrow> False)"

definition is_Slept :: "event \<Rightarrow> bool" where
  "is_Slept e = (case e of Worked _ \<Rightarrow> False | Slept _ \<Rightarrow> True)"

section \<open>The cancellation coordinator\<close>

text \<open>
  \<^verbatim>\<open>cancelHandle\<close> is a channel: \<^verbatim>\<open>nil\<close> (\<open>None\<close>), open or closed. The two callbacks act
  on a world \<open>'w\<close>; \<^verbatim>\<open>nil\<close> is \<open>None\<close>. Besides the canceler and the world, the state
  keeps the list of what the calls of \<^verbatim>\<open>Cancel\<close> did, each entry with the number \<open>t\<close> of
  the call that did it: winning the compare-and-swap, running the cleaner, running the
  aborter, closing the channel.
\<close>

datatype chan = ChanOpen | ChanClosed

record 'w canceler =
  called :: "32 word"
  cancelHandle :: "chan option"
  cleaner :: "('w \<Rightarrow> 'w) option"
  aborter :: "('w \<Rightarrow> error option \<times> 'w) option"

datatype cancel_event = CasWon nat | Cleaned nat | Aborted nat | HandleClosed nat

record 'w cancel_state =
  canc :: "'w canceler"
  world :: 'w
  effects :: "cancel_event list"

text \<open>\<^verbatim>\<open>atomic.CompareAndSwapInt32(&c.called, 0, 1)\<close>, one atomic action.\<close>

definition CompareAndSwap_called :: "nat \<Rightarrow> 'w cancel_state \<Rightarrow> bool \<times> 'w cancel_state" where
  "CompareAndSwap_called t st =
     (if called (canc st) = 0
      then (True, st\<lparr>canc := (canc st)\<lparr>called := 1\<rparr>, effects := effects st @ [CasWon t]\<rparr>)
      else (False, st))"

text \<open>\<^verbatim>\<open>if c.cleaner != nil { c.cleaner() }\<close>\<close>

definition run_cleaner :: "nat \<Rightarrow> 'w cancel_state \<Rightarrow> 'w cancel_state" where
  "run_cleaner t st =
     (case cleaner (canc st) of
        None \<Rightarrow> st
      | Some f \<Rightarrow> st\<lparr>world := f (world st), effects := effects st @ [Cleaned t]\<rparr>)"

text \<open>\<^verbatim>\<open>if c.aborter != nil { c.aborter() }\<close>: the error it returns is dropped.\<close>

definition run_aborter :: "nat \<Rightarrow> 'w cancel_state \<Rightarrow> 'w cancel_state" where
  "run_aborter t st =
     (case aborter (canc st) of
        None \<Rightarrow> st
      | Some f \<Rightarrow> st\<lparr>world := snd (f (world st)), effects := effects st @ [Aborted t]\<rparr>)"

text \<open>\<^verbatim>\<open>close(c.cancelHandle)\<close> panics on a closed and on a \<^verbatim>\<open>nil\<close> channel.\<close>

definition close_cancelHandle :: "nat \<Rightarrow> 'w cancel_state \<Rightarrow> panic option \<times> 'w cancel_state" where
  "close_cancelHandle t st =
     (case cancelHandle (canc st) of
        None \<Rightarrow> (Some CloseOfNilChannel, st)
      | Some ChanClosed \<Rightarrow> (Some CloseOfClosedChannel, st)
      | Some ChanOpen \<Rightarrow>
          (None, st\<lparr>canc := (canc st)\<lparr>cancelHandle := Some ChanClosed\<rparr>,
                     effects := effects st @ [HandleClosed t]\<rparr>))"

text \<open>\<^verbatim>\<open>func (c *canceler) Cancel(isAbort bool)\<close>, as call number \<open>t\<close>, run without interruption.\<close>

definition Cancel :: "nat \<Rightarrow> bool \<Rightarrow> 'w cancel_state \<Rightarrow> panic option \<times> 'w cancel_state" where
  "Cancel t isAbort st =
     (if cancelHandle (canc st) = None then (None, st)
      else (case CompareAndSwap_called t st of
              (True, st1) \<Rightarrow>
                close_cancelHandle t
                  (if isAbort then run_aborter t (run_cleaner t st1) else st1)
            | (False, st1) \<Rightarrow> (None, st1)))"

text \<open>
  Concurrent calls interleave between the actions of \<^verbatim>\<open>Cancel\<close>. A call is at one of
  the program points below, and \<open>Cancel_step\<close> is the action it takes there: the
  \<^verbatim>\<open>nil\<close> check, the compare-and-swap, the cleaner, the aborter, the close.
\<close>

datatype pc = AtNilCheck | AtCAS | AtCleaner | AtAborter | AtClose | Returned | Panicked panic

fun Cancel_step :: "nat \<Rightarrow> bool \<Rightarrow> pc \<Rightarrow> 'w cancel_state \<Rightarrow> pc \<times> 'w cancel_state" where
  "Cancel_step t isAbort AtNilCheck st =
     (if cancelHandle (canc st) = None then (Returned, st) else (AtCAS, st))"
| "Cancel_step t isAbort AtCAS st =
     (case CompareAndSwap_called t st of
        (True, st1) \<Rightarrow> (if isAbort then AtCleaner else AtClose, st1)
      | (False, st1) \<Rightarrow> (Returned, st1))"
| "Cancel_step t isAbort AtCleaner st = (AtAborter, run_cleaner t st)"
| "Cancel_step t isAbort AtAborter st = (AtClose, run_aborter t st)"
| "Cancel_step t isAbort AtClose st =
     (case close_cancelHandle t st of
        (None, st1) \<Rightarrow> (Returned, st1)
      | (Some p, st1) \<Rightarrow> (Panicked p, st1))"
| "Cancel_step t isAbort Returned st = (Returned, st)"
| "Cancel_step t isAbort (Panicked p) st = (Panicked p, st)"

text \<open>
  A system of calls: the shared state and, for each call, its \<^verbatim>\<open>isAbort\<close> argument and
  its program point. A schedule is the list of the calls that take the next action, in
  order; a number that is no call does nothing. A call that panics stops and the
  others go on, which also covers a program that stops as a whole.
\<close>

record 'w system =
  shared :: "'w cancel_state"
  calls :: "(bool \<times> pc) list"

definition step_call :: "nat \<Rightarrow> 'w system \<Rightarrow> 'w system" where
  "step_call t sys =
     (if t < length (calls sys)
      then (case calls sys ! t of
              (isAbort, p) \<Rightarrow>
                (case Cancel_step t isAbort p (shared sys) of
                   (p', st') \<Rightarrow> \<lparr>shared = st', calls = (calls sys)[t := (isAbort, p')]\<rparr>))
      else sys)"

definition exec :: "nat list \<Rightarrow> 'w system \<Rightarrow> 'w system" where
  "exec sched sys = foldl (\<lambda>s t. step_call t s) sys sched"

definition start :: "'w canceler \<Rightarrow> 'w \<Rightarrow> bool list \<Rightarrow> 'w system" where
  "start c w isAborts =
     \<lparr>shared = \<lparr>canc = c, world = w, effects = []\<rparr>,
      calls = map (\<lambda>b. (b, AtNilCheck)) isAborts\<rparr>"

definition is_Cleaned :: "cancel_event \<Rightarrow> bool" where
  "is_Cleaned e = (case e of Cleaned _ \<Rightarrow> True | _ \<Rightarrow> False)"

definition is_Aborted :: "cancel_event \<Rightarrow> bool" where
  "is_Aborted e = (case e of Aborted _ \<Rightarrow> True | _ \<Rightarrow> False)"

definition is_CasWon :: "cancel_event \<Rightarrow> bool" where
  "is_CasWon e = (case e of CasWon _ \<Rightarrow> True | _ \<Rightarrow> False)"

section \<open>The parallel progress decorator\<close>

text \<open>
  Modelled from the spec: \<^verbatim>\<open>DataTransferStatus\<close>, the event types of package \<^verbatim>\<open>enum\<close> and
  \<^verbatim>\<open>postDataTransferStatus\<close> are not under \<^verbatim>\<open>src/\<close>. An event has a type (Started, RW,
  Succeeded, Failed) and the three byte counts that \<^verbatim>\<open>Read\<close> sets, zero when it does not
  set them; posting an event hands it to the listener, which is the list of the events
  it has received, each with the number of the call of \<^verbatim>\<open>Read\<close> that posted it.
\<close>

datatype DataTransferType =
  DataTransferStarted | DataTransferRW | DataTransferSucceed | DataTransferFailed

record DataTransferStatus =
  Type :: DataTransferType
  RWOnceBytes :: int64
  ConsumedBytes :: int64
  TotalBytes :: int64

text \<open>
  The state shared by the decorators of one transfer: the two counters behind the
  pointers \<^verbatim>\<open>r.consumed\<close> and \<^verbatim>\<open>r.subtotal\<close>, and the listener.
\<close>

record progress =
  consumed :: int64
  subtotal :: int64
  listener :: "(nat \<times> DataTransferStatus) list"

definition postDataTransferStatus :: "nat \<Rightarrow> DataTransferStatus \<Rightarrow> progress \<Rightarrow> progress" where
  "postDataTransferStatus t status st = st\<lparr>listener := listener st @ [(t, status)]\<rparr>"

definition threshold :: int64 where
  "threshold = 4 * 1024 * 1024"

text \<open>
  The decorators of the parts of one transfer share the counters and the listener
  and take no lock, so the calls of \<^verbatim>\<open>Read\<close> interleave between their actions. A call
  holds what \<^verbatim>\<open>r.base.Read(p)\<close> returned to it (\<open>ret_n\<close> as the \<^verbatim>\<open>int64(n)\<close> the code
  converts it to, and \<open>ret_err\<close>), its program point, and its local variables
  \<^verbatim>\<open>consumed\<close> and \<^verbatim>\<open>subtotal\<close>, which receive what the two \<^verbatim>\<open>atomic.AddInt64\<close> return.
\<close>

datatype read_pc =
  AtRead | AtAddConsumed | AtAddSubtotal | AtThreshold | AtStore | AtTotal | AtSucceed
| ReadReturned

record read_call =
  ret_n :: int64
  ret_err :: "error option"
  point :: read_pc
  local_consumed :: int64
  local_subtotal :: int64

text \<open>The three events that \<^verbatim>\<open>Read\<close> builds, for the declared total \<open>r_total\<close>.\<close>

definition status_Failed :: DataTransferStatus where
  "status_Failed =
     \<lparr>Type = DataTransferFailed, RWOnceBytes = 0, ConsumedBytes = 0, TotalBytes = 0\<rparr>"

definition status_RW :: "int64 \<Rightarrow> read_call \<Rightarrow> DataTransferStatus" where
  "status_RW r_total c =
     \<lparr>Type = DataTransferRW, RWOnceBytes = local_subtotal c,
      ConsumedBytes = local_consumed c, TotalBytes = r_total\<rparr>"

definition status_Succeed :: "int64 \<Rightarrow> read_call \<Rightarrow> DataTransferStatus" where
  "status_Succeed r_total c =
     \<lparr>Type = DataTransferSucceed, RWOnceBytes = 0,
      ConsumedBytes = local_consumed c, TotalBytes = r_total\<rparr>"

text \<open>
  \<^verbatim>\<open>parallelReadCloserWithListener.Read\<close>, one action of call number \<open>t\<close> at a time:
  \<^item> \<open>AtRead\<close>: the two guards after \<^verbatim>\<open>r.base.Read(p)\<close>; an error other than \<^verbatim>\<open>io.EOF\<close>
    posts Failed and returns, no byte returns;
  \<^item> \<open>AtAddConsumed\<close>: \<^verbatim>\<open>consumed := atomic.AddInt64(r.consumed, int64(n))\<close>;
  \<^item> \<open>AtAddSubtotal\<close>: \<^verbatim>\<open>subtotal := atomic.AddInt64(r.subtotal, int64(n))\<close>;
  \<^item> \<open>AtThreshold\<close>: \<^verbatim>\<open>if subtotal >= 4*1024*1024\<close>, posting the RW event;
  \<^item> \<open>AtStore\<close>: \<^verbatim>\<open>atomic.StoreInt64(r.subtotal, 0)\<close>;
  \<^item> \<open>AtTotal\<close>: \<^verbatim>\<open>if consumed == r.total\<close> and, inside it, \<^verbatim>\<open>if subtotal < 4*1024*1024\<close>,
    posting the RW event;
  \<^item> \<open>AtSucceed\<close>: posting the Succeeded event.
  \<^verbatim>\<open>Read\<close> returns the \<open>(n, err)\<close> it received.
\<close>

definition Read_step :: "int64 \<Rightarrow> nat \<Rightarrow> read_call \<Rightarrow> progress \<Rightarrow> read_call \<times> progress" where
  "Read_step r_total t c st =
     (case point c of
        AtRead \<Rightarrow>
          (if ret_err c \<noteq> None \<and> ret_err c \<noteq> Some io_EOF
           then (c\<lparr>point := ReadReturned\<rparr>, postDataTransferStatus t status_Failed st)
           else if ret_n c \<le>s 0 then (c\<lparr>point := ReadReturned\<rparr>, st)
           else (c\<lparr>point := AtAddConsumed\<rparr>, st))
      | AtAddConsumed \<Rightarrow>
          (c\<lparr>point := AtAddSubtotal, local_consumed := consumed st + ret_n c\<rparr>,
           st\<lparr>consumed := consumed st + ret_n c\<rparr>)
      | AtAddSubtotal \<Rightarrow>
          (c\<lparr>point := AtThreshold, local_subtotal := subtotal st + ret_n c\<rparr>,
           st\<lparr>subtotal := subtotal st + ret_n c\<rparr>)
      | AtThreshold \<Rightarrow>
          (if threshold \<le>s local_subtotal c
           then (c\<lparr>point := AtStore\<rparr>, postDataTransferStatus t (status_RW r_total c) st)
           else (c\<lparr>point := AtTotal\<rparr>, st))
      | AtStore \<Rightarrow> (c\<lparr>point := AtTotal\<rparr>, st\<lparr>subtotal := 0\<rparr>)
      | AtTotal \<Rightarrow>
          (if local_consumed c = r_total
           then (c\<lparr>point := AtSucceed\<rparr>,
                 (if local_subtotal c <s threshold
                  then postDataTransferStatus t (status_RW r_total c) st
                  else st))
           else (c\<lparr>point := ReadReturned\<rparr>, st))
      | AtSucceed \<Rightarrow>
          (c\<lparr>point := ReadReturned\<rparr>, postDataTransferStatus t (status_Succeed r_total c) st)
      | ReadReturned \<Rightarrow> (c, st))"

text \<open>
  A transfer: the shared state and the calls of \<^verbatim>\<open>Read\<close>. A schedule is the list of
  the calls that take the next action, in order; a number that is no call does
  nothing. The calls of one decorator follow one another and those of different
  decorators interleave; every such run is a schedule, and the schedule that takes
  all the actions of a call before those of the next is the run without overlap.
\<close>

record transfer =
  counters :: progress
  reads :: "read_call list"

definition step_read :: "int64 \<Rightarrow> nat \<Rightarrow> transfer \<Rightarrow> transfer" where
  "step_read r_total t sys =
     (if t < length (reads sys)
      then (case Read_step r_total t (reads sys ! t) (counters sys) of
              (c', st') \<Rightarrow> \<lparr>counters = st', reads = (reads sys)[t := c']\<rparr>)
      else sys)"




text \<open>
  A read counts when the wrapped stream returned no error other than \<^verbatim>\<open>io.EOF\<close> and at
  least one byte; \<open>read_bytes\<close> is the sum of the bytes of the reads that count. The
  events that call \<open>t\<close> has posted are \<open>posted_by t\<close>.
\<close>

definition counts :: "int64 \<times> error option \<Rightarrow> bool" where
  "counts r = (case r of (n, err) \<Rightarrow> (err = None \<or> err = Some io_EOF) \<and> 0 <s n)"





section \<open>Notions for the proofs about cancellation\<close>

text \<open>
  What the call \<open>t\<close> that won the compare-and-swap has done when it stands at a program
  point, and \<open>Cancel_effects\<close>, what it has done when it returns: the cleaner and the
  aborter run only when \<open>isAbort\<close> holds and they are not \<^verbatim>\<open>nil\<close>.
\<close>

definition cleaner_effect :: "'w canceler \<Rightarrow> nat \<Rightarrow> cancel_event list" where
  "cleaner_effect c t = (case cleaner c of None \<Rightarrow> [] | Some _ \<Rightarrow> [Cleaned t])"

definition aborter_effect :: "'w canceler \<Rightarrow> nat \<Rightarrow> cancel_event list" where
  "aborter_effect c t = (case aborter c of None \<Rightarrow> [] | Some _ \<Rightarrow> [Aborted t])"

fun effects_at :: "'w canceler \<Rightarrow> nat \<Rightarrow> bool \<Rightarrow> pc \<Rightarrow> cancel_event list" where
  "effects_at c t isAbort AtCleaner = [CasWon t]"
| "effects_at c t isAbort AtAborter = CasWon t # cleaner_effect c t"
| "effects_at c t isAbort AtClose =
     CasWon t # (if isAbort then cleaner_effect c t @ aborter_effect c t else [])"
| "effects_at c t isAbort _ = []"

definition Cancel_effects :: "'w canceler \<Rightarrow> nat \<Rightarrow> bool \<Rightarrow> cancel_event list" where
  "Cancel_effects c t isAbort = effects_at c t isAbort AtClose @ [HandleClosed t]"

fun winning :: "pc \<Rightarrow> bool" where
  "winning AtCleaner = True"
| "winning AtAborter = True"
| "winning AtClose = True"
| "winning _ = False"

text \<open>
  The invariant of a system of calls: either nothing has been done and no call is past
  the compare-and-swap, or the flag is set and one call \<open>t\<close> is the only one that ever
  got past it; the effects are then those of \<open>t\<close> up to its program point, or a prefix of
  all its effects once it has returned or panicked.
\<close>

definition one_winner :: "'w system \<Rightarrow> bool" where
  "one_winner sys =
     ((effects (shared sys) = [] \<and> (\<forall>u < length (calls sys). \<not> winning (snd (calls sys ! u))))
      \<or> (\<exists>t < length (calls sys).
            called (canc (shared sys)) \<noteq> 0
            \<and> (\<forall>u < length (calls sys). u \<noteq> t \<longrightarrow> \<not> winning (snd (calls sys ! u)))
            \<and> (if winning (snd (calls sys ! t))
                then effects (shared sys)
                       = effects_at (canc (shared sys)) t (fst (calls sys ! t)) (snd (calls sys ! t))
                     \<and> (snd (calls sys ! t) \<noteq> AtClose \<longrightarrow> fst (calls sys ! t))
                else prefix (effects (shared sys))
                       (Cancel_effects (canc (shared sys)) t (fst (calls sys ! t))))))"

section \<open>Notions for the proofs about progress events\<close>

text \<open>
  What a call has posted when it stands at a program point, from what it received
  and its local variables.
\<close>

definition call_counts :: "read_call \<Rightarrow> bool" where
  "call_counts c = counts (ret_n c, ret_err c)"










section \<open>Concrete inputs\<close>

text \<open>
  An upload checkpoint of two parts, the first complete and the second not, whose part
  numbers follow the index identity.
\<close>

definition cp2 :: uploadCheckpoint where
  "cp2 = \<lparr>uploadCheckpoint.checkpointPath = ''cp'', Bucket = ''b'', Key = ''k'',
     UploadID = ''id'', PartSize = 5, SSECAlgorithm = [], SSECKeyMD5 = [],
     EncodingType = [], FilePath = ''f'',
     FileInfo = \<lparr>fileInfo.LastModified = 7, Size = 10\<rparr>,
     PartsInfo =
       [\<lparr>uploadID = None, PartNumber = 1, PartSize = 5, Offset = 0, ETag = ''e1'',
         HashCrc64ecma = 0, IsCompleted = True\<rparr>,
        \<lparr>uploadID = None, PartNumber = 2, PartSize = 5, Offset = 5, ETag = [],
         HashCrc64ecma = 0, IsCompleted = False\<rparr>]\<rparr>"

text \<open>
  A download checkpoint of two parts, a completed second part for it, and a completed
  second part for the upload checkpoint.
\<close>

definition dcp2 :: downloadCheckpoint where
  "dcp2 = \<lparr>downloadCheckpoint.checkpointPath = ''cp'', Bucket = ''b'', Key = ''k'',
     VersionID = ''v'', PartSize = 5, IfMatch = [],
     IfModifiedSince = \<lparr>wall = 0, ext = 0, loc = 0\<rparr>, IfNoneMatch = [],
     IfUnmodifiedSince = \<lparr>wall = 0, ext = 0, loc = 0\<rparr>,
     SSECAlgorithm = [], SSECKeyMD5 = [],
     ObjectInfo = \<lparr>Etag = ''e'', HashCrc64ecma = 9,
                   LastModified = \<lparr>wall = 0, ext = 100, loc = 0\<rparr>, ObjectSize = 10\<rparr>,
     FileInfo = \<lparr>downloadFileInfo.FilePath = ''f'', TempFilePath = ''f.temp''\<rparr>,
     PartsInfo =
       [\<lparr>downloadPartInfo.PartNumber = 1, RangeStart = 0, RangeEnd = 4, HashCrc64ecma = 0,
         IsCompleted = False\<rparr>,
        \<lparr>downloadPartInfo.PartNumber = 2, RangeStart = 5, RangeEnd = 9, HashCrc64ecma = 0,
         IsCompleted = False\<rparr>]\<rparr>"

definition dpart2 :: downloadPartInfo where
  "dpart2 = \<lparr>downloadPartInfo.PartNumber = 2, RangeStart = 5, RangeEnd = 9,
              HashCrc64ecma = 77, IsCompleted = True\<rparr>"

definition upart2 :: uploadPartInfo where
  "upart2 = \<lparr>uploadID = None, PartNumber = 2, PartSize = 5, Offset = 5, ETag = ''e2'',
              HashCrc64ecma = 78, IsCompleted = True\<rparr>"

text \<open>
  A serialiser and two file systems for the concrete inputs: \<open>marshal_ok\<close> returns one
  byte; the file system is the list of the files written, and \<open>write_full\<close> fails as a
  full disk does.
\<close>

definition marshal_ok :: "'c \<Rightarrow> error + bytes" where
  "marshal_ok c = Inr [123]"

definition write_ok :: "(string \<times> bytes) list WriteFile" where
  "write_ok path buffer perm fs = (None, fs @ [(path, buffer)])"

definition write_full :: "(string \<times> bytes) list WriteFile" where
  "write_full path buffer perm fs = (Some (GoError ''no space left on device''), fs)"

text \<open>
  The request and the remote metadata that the download checkpoint \<open>dcp2\<close> was planned
  for, and the file status that the upload checkpoint \<open>cp2\<close> was planned for.
\<close>

definition dinput2 :: DownloadFileInput where
  "dinput2 = \<lparr>DownloadFileInput.Bucket = ''b'', Key = ''k'', VersionID = ''v'', PartSize = 5,
     IfMatch = [], IfModifiedSince = \<lparr>wall = 0, ext = 0, loc = 0\<rparr>, IfNoneMatch = [],
     IfUnmodifiedSince = \<lparr>wall = 0, ext = 0, loc = 0\<rparr>,
     SSECAlgorithm = [], SSECKeyMD5 = [], FilePath = ''f''\<rparr>"

definition head2 :: HeadObjectV2Output where
  "head2 = \<lparr>HeadObjectV2Output.ETag = ''e'', HashCrc64ecma = 9, LastModified = \<lparr>wall = 0, ext = 100, loc = 0\<rparr>,
     ContentLength = 10\<rparr>"

definition stat2 :: os_FileInfo where
  "stat2 = \<lparr>os_FileInfo.Size = 10, ModTime_Unix = 7\<rparr>"

text \<open>
  A world for the concrete runs: a clock in nanoseconds and the number of calls of
  \<open>work\<close> so far. Sleeping advances the clock; \<open>failing_work\<close> counts the call and
  fails; \<open>retry_errors\<close> retries every error; \<open>ctx_deadline d\<close> is a context that is
  not cancelled and has the deadline \<open>d\<close>.
\<close>

record clock_state =
  clock :: int64
  attempts :: nat

definition clock_runtime :: "clock_state runtime" where
  "clock_runtime = \<lparr>Now_UnixNano = clock, Sleep = (\<lambda>d s. s\<lparr>clock := clock s + d\<rparr>)\<rparr>"

definition failing_work :: "clock_state \<Rightarrow> error option \<times> clock_state" where
  "failing_work s = (Some (GoError ''timeout''), s\<lparr>attempts := attempts s + 1\<rparr>)"

definition retry_errors :: "error option \<Rightarrow> retryAction" where
  "retry_errors e = (case e of None \<Rightarrow> NoRetry | Some _ \<Rightarrow> Retry)"


text \<open>
  A canceler whose callbacks write their names into the world, a list of names, with
  an open channel and the flag not set.
\<close>

definition canceler0 :: "string list canceler" where
  "canceler0 = \<lparr>called = 0, cancelHandle = Some ChanOpen,
     cleaner = Some (\<lambda>w. w @ [''clean'']),
     aborter = Some (\<lambda>w. (None, w @ [''abort'']))\<rparr>"


definition maxAlloc_linux_amd64 :: nat where
  "maxAlloc_linux_amd64 = 2 ^ 48"

definition memory_16GiB :: nat where
  "memory_16GiB = 2 ^ 34"

section \<open>The backoff sequence\<close>

lemma exponentialBackoff_loop_eq:
  "i \<le> length backoffs \<Longrightarrow>
   exponentialBackoff_loop i base backoffs = take i backoffs @ replicate (length backoffs - i) base"
proof (induction i base backoffs rule: exponentialBackoff_loop.induct)
  case (1 i base backoffs)
  show ?case
  proof (cases "i < length backoffs")
    case True
    have "exponentialBackoff_loop i base backoffs
            = exponentialBackoff_loop (i + 1) (base * 1) (backoffs[i := base])"
      using True by (subst exponentialBackoff_loop.simps) simp
    also have "\<dots> = take (i + 1) (backoffs[i := base])
                      @ replicate (length (backoffs[i := base]) - (i + 1)) (base * 1)"
      using True by (intro "1.IH") simp_all
    also have "\<dots> = (take i backoffs @ [base]) @ replicate (length backoffs - i - 1) base"
      using True by (simp add: take_Suc_conv_app_nth)
    also have "\<dots> = take i backoffs @ replicate (Suc (length backoffs - i - 1)) base"
      by simp
    also have "Suc (length backoffs - i - 1) = length backoffs - i"
      using True by simp
    finally show ?thesis .
  next
    case False
    with "1.prems" show ?thesis by (subst exponentialBackoff_loop.simps) simp
  qed
qed

text \<open>
  C8, as the claim states it, fails for a large \<open>n\<close>: \<^verbatim>\<open>make\<close> panics for \<open>n = 2 ^ 62\<close>,
  which is not negative, and no sequence is generated.
\<close>

theorem exponentialBackoff_large_n_counterexample:
  "(0 :: int) \<le> 2 ^ 62
   \<and> exponentialBackoff maxAlloc_linux_amd64 memory_16GiB (2 ^ 62) DefaultRetryBackoffBase
       = Inl MakesliceLenOutOfRange"
  by (simp add: exponentialBackoff_def make_Durations_def maxAlloc_linux_amd64_def)

text \<open>
  C8, amended. For every \<open>n \<ge> 0\<close> whose eight-byte elements are within the allocation
  limit of the runtime and the memory at hand, and every base duration,
  \<^verbatim>\<open>exponentialBackoff\<close> returns a sequence of length \<open>n\<close> whose every entry is the base
  duration: the sequence never grows. For every other \<open>n\<close> it returns no sequence: the
  program panics or ends in \<^verbatim>\<open>make\<close>.
\<close>

theorem exponentialBackoff_flat:
  "(0 \<le> n \<and> 8 * n \<le> int maxAlloc \<and> 8 * n \<le> int avail
      \<longrightarrow> (\<exists>backoffs. exponentialBackoff maxAlloc avail n base = Inr backoffs
             \<and> int (length backoffs) = n
             \<and> (\<forall>i < length backoffs. backoffs ! i = base)))
   \<and> (\<not> (0 \<le> n \<and> 8 * n \<le> int maxAlloc \<and> 8 * n \<le> int avail)
      \<longrightarrow> (\<exists>p. exponentialBackoff maxAlloc avail n base = Inl p))"
proof (intro conjI impI)
  assume ok: "0 \<le> n \<and> 8 * n \<le> int maxAlloc \<and> 8 * n \<le> int avail"
  let ?zeros = "replicate (nat n) (0 :: Duration)"
  have made: "make_Durations maxAlloc avail n = Inr ?zeros"
    using ok by (simp add: make_Durations_def)
  have "exponentialBackoff_loop 0 base ?zeros = replicate (nat n) base"
    using exponentialBackoff_loop_eq [of 0 ?zeros base] by simp
  then have run: "exponentialBackoff maxAlloc avail n base = Inr (replicate (nat n) base)"
    using made by (simp add: exponentialBackoff_def)
  have len: "int (length (replicate (nat n) base)) = n" using ok by simp
  have all: "\<forall>i < length (replicate (nat n) base). replicate (nat n) base ! i = base"
    by simp
  from run len all
  show "\<exists>backoffs. exponentialBackoff maxAlloc avail n base = Inr backoffs
          \<and> int (length backoffs) = n \<and> (\<forall>i < length backoffs. backoffs ! i = base)"
    by blast
next
  assume "\<not> (0 \<le> n \<and> 8 * n \<le> int maxAlloc \<and> 8 * n \<le> int avail)"
  then have "\<exists>p. make_Durations maxAlloc avail n = Inl p"
    by (auto simp: make_Durations_def)
  then show "\<exists>p. exponentialBackoff maxAlloc avail n base = Inl p"
    by (auto simp: exponentialBackoff_def)
qed

theorem exponentialBackoff_flat_witness:
  "(\<exists>backoffs.
      exponentialBackoff maxAlloc_linux_amd64 memory_16GiB 3 DefaultRetryBackoffBase = Inr backoffs
      \<and> int (length backoffs) = 3
      \<and> (\<forall>i < length backoffs. backoffs ! i = DefaultRetryBackoffBase))
   \<and> (\<exists>p. exponentialBackoff maxAlloc_linux_amd64 memory_16GiB (- 1) DefaultRetryBackoffBase
            = Inl p)"
proof -
  have ok: "(0 :: int) \<le> 3 \<and> 8 * 3 \<le> int maxAlloc_linux_amd64 \<and> 8 * 3 \<le> int memory_16GiB"
    by (simp add: maxAlloc_linux_amd64_def memory_16GiB_def)
  have no: "\<not> ((0 :: int) \<le> - 1 \<and> 8 * (- 1) \<le> int maxAlloc_linux_amd64
                 \<and> 8 * (- 1) \<le> int memory_16GiB)"
    by simp
  from exponentialBackoff_flat [of 3 maxAlloc_linux_amd64 memory_16GiB DefaultRetryBackoffBase] ok
  have 1: "\<exists>backoffs.
      exponentialBackoff maxAlloc_linux_amd64 memory_16GiB 3 DefaultRetryBackoffBase = Inr backoffs
      \<and> int (length backoffs) = 3
      \<and> (\<forall>i < length backoffs. backoffs ! i = DefaultRetryBackoffBase)"
    by blast
  from exponentialBackoff_flat [of "- 1" maxAlloc_linux_amd64 memory_16GiB DefaultRetryBackoffBase] no
  have 2: "\<exists>p. exponentialBackoff maxAlloc_linux_amd64 memory_16GiB (- 1) DefaultRetryBackoffBase
            = Inl p"
    by blast
  from 1 2 show ?thesis by blast
qed

section \<open>The parts of an upload checkpoint\<close>

lemma GetParts_loop_eq:
  "GetParts_loop ps parts =
     parts @ map (\<lambda>p. \<lparr>UploadedPartV2.PartNumber = uploadPartInfo.PartNumber p,
                        ETag = uploadPartInfo.ETag p\<rparr>) ps"
  by (induction ps arbitrary: parts) simp_all

lemma sorted_index_identity:
  "upload_index_identity ps \<Longrightarrow> sorted_wrt (<) (map uploadPartInfo.PartNumber ps)"
  by (simp add: upload_index_identity_def sorted_wrt_iff_nth_less list_all_iff)

text \<open>
  C10. \<^verbatim>\<open>GetParts\<close> returns one entry per part record, in the order of the part-record
  list, each with the part number and the entity tag of its record, whatever the
  record's completion flag; the part numbers ascend when the index identity holds.
\<close>

theorem GetParts_all_parts:
  "length (GetParts u) = length (uploadCheckpoint.PartsInfo u)
   \<and> (\<forall>i < length (uploadCheckpoint.PartsInfo u).
        UploadedPartV2.PartNumber (GetParts u ! i)
          = uploadPartInfo.PartNumber (uploadCheckpoint.PartsInfo u ! i)
        \<and> UploadedPartV2.ETag (GetParts u ! i)
          = uploadPartInfo.ETag (uploadCheckpoint.PartsInfo u ! i))
   \<and> (upload_index_identity (uploadCheckpoint.PartsInfo u)
        \<longrightarrow> sorted_wrt (<) (map UploadedPartV2.PartNumber (GetParts u)))"
proof -
  have len: "length (GetParts u) = length (uploadCheckpoint.PartsInfo u)"
    by (simp add: GetParts_def GetParts_loop_eq)
  have nth: "\<forall>i < length (uploadCheckpoint.PartsInfo u).
        UploadedPartV2.PartNumber (GetParts u ! i)
          = uploadPartInfo.PartNumber (uploadCheckpoint.PartsInfo u ! i)
        \<and> UploadedPartV2.ETag (GetParts u ! i)
          = uploadPartInfo.ETag (uploadCheckpoint.PartsInfo u ! i)"
    by (simp add: GetParts_def GetParts_loop_eq)
  have "map UploadedPartV2.PartNumber (GetParts u)
          = map uploadPartInfo.PartNumber (uploadCheckpoint.PartsInfo u)"
    by (simp add: GetParts_def GetParts_loop_eq comp_def)
  then have "upload_index_identity (uploadCheckpoint.PartsInfo u)
        \<longrightarrow> sorted_wrt (<) (map UploadedPartV2.PartNumber (GetParts u))"
    by (simp add: sorted_index_identity)
  with len nth show ?thesis by blast
qed

theorem GetParts_all_parts_witness:
  "upload_index_identity (uploadCheckpoint.PartsInfo cp2)
   \<and> GetParts cp2 = [\<lparr>UploadedPartV2.PartNumber = 1, ETag = ''e1''\<rparr>,
                     \<lparr>UploadedPartV2.PartNumber = 2, ETag = []\<rparr>]
   \<and> sorted_wrt (<) (map UploadedPartV2.PartNumber (GetParts cp2))"
proof -
  have ident: "upload_index_identity (uploadCheckpoint.PartsInfo cp2)"
    by (simp add: cp2_def upload_index_identity_def upt_rec)
  have "length (GetParts cp2) = 2"
    using GetParts_all_parts [of cp2] by (simp add: cp2_def)
  moreover have "GetParts cp2 ! 0 = \<lparr>UploadedPartV2.PartNumber = 1, ETag = ''e1''\<rparr>"
    using GetParts_all_parts [of cp2] by (simp add: cp2_def)
  moreover have "GetParts cp2 ! 1 = \<lparr>UploadedPartV2.PartNumber = 2, ETag = []\<rparr>"
    using GetParts_all_parts [of cp2] by (simp add: cp2_def)
  ultimately have parts: "GetParts cp2 = [\<lparr>UploadedPartV2.PartNumber = 1, ETag = ''e1''\<rparr>,
                     \<lparr>UploadedPartV2.PartNumber = 2, ETag = []\<rparr>]"
    by (simp add: list_eq_iff_nth_eq less_Suc_eq numeral_2_eq_2)
  have "sorted_wrt (<) (map UploadedPartV2.PartNumber (GetParts cp2))"
    using GetParts_all_parts [of cp2] ident by blast
  with ident parts show ?thesis by blast
qed

section \<open>Recording a part\<close>

lemma download_index_identity_update:
  assumes "download_index_identity ps" "k < length ps" "downloadPartInfo.PartNumber p = int k + 1"
  shows "download_index_identity (ps[k := p])"
  using assms by (auto simp: download_index_identity_def list_all_iff nth_list_update)

lemma upload_index_identity_update:
  assumes "upload_index_identity ps" "k < length ps" "uploadPartInfo.PartNumber p = int k + 1"
  shows "upload_index_identity (ps[k := p])"
  using assms by (auto simp: upload_index_identity_def list_all_iff nth_list_update)

lemma downloadCheckpoint_UpdatePartsInfo_frame:
  assumes "1 \<le> downloadPartInfo.PartNumber p"
    and "downloadPartInfo.PartNumber p \<le> int (length (downloadCheckpoint.PartsInfo c))"
  shows "\<exists>c'. downloadCheckpoint_UpdatePartsInfo c p = Inr c'
      \<and> length (downloadCheckpoint.PartsInfo c') = length (downloadCheckpoint.PartsInfo c)
      \<and> downloadCheckpoint.PartsInfo c' ! nat (downloadPartInfo.PartNumber p - 1) = p
      \<and> (\<forall>j < length (downloadCheckpoint.PartsInfo c).
            j \<noteq> nat (downloadPartInfo.PartNumber p - 1)
            \<longrightarrow> downloadCheckpoint.PartsInfo c' ! j = downloadCheckpoint.PartsInfo c ! j)
      \<and> c'\<lparr>downloadCheckpoint.PartsInfo := downloadCheckpoint.PartsInfo c\<rparr> = c
      \<and> (download_index_identity (downloadCheckpoint.PartsInfo c)
            \<longrightarrow> download_index_identity (downloadCheckpoint.PartsInfo c'))"
proof -
  let ?k = "nat (downloadPartInfo.PartNumber p - 1)"
  let ?c' = "c\<lparr>downloadCheckpoint.PartsInfo := (downloadCheckpoint.PartsInfo c)[?k := p]\<rparr>"
  have k: "?k < length (downloadCheckpoint.PartsInfo c)" using assms by simp
  have pn: "downloadPartInfo.PartNumber p = int ?k + 1" using assms by simp
  have "downloadCheckpoint_UpdatePartsInfo c p = Inr ?c'"
    using assms by (simp add: downloadCheckpoint_UpdatePartsInfo_def)
  moreover have "download_index_identity (downloadCheckpoint.PartsInfo c)
            \<longrightarrow> download_index_identity (downloadCheckpoint.PartsInfo ?c')"
    using download_index_identity_update [OF _ k pn] by simp
  ultimately show ?thesis using k by simp
qed

lemma uploadCheckpoint_UpdatePartsInfo_frame:
  assumes "1 \<le> uploadPartInfo.PartNumber p"
    and "uploadPartInfo.PartNumber p \<le> int (length (uploadCheckpoint.PartsInfo u))"
  shows "\<exists>u'. uploadCheckpoint_UpdatePartsInfo u p = Inr u'
      \<and> length (uploadCheckpoint.PartsInfo u') = length (uploadCheckpoint.PartsInfo u)
      \<and> uploadCheckpoint.PartsInfo u' ! nat (uploadPartInfo.PartNumber p - 1) = p
      \<and> (\<forall>j < length (uploadCheckpoint.PartsInfo u).
            j \<noteq> nat (uploadPartInfo.PartNumber p - 1)
            \<longrightarrow> uploadCheckpoint.PartsInfo u' ! j = uploadCheckpoint.PartsInfo u ! j)
      \<and> u'\<lparr>uploadCheckpoint.PartsInfo := uploadCheckpoint.PartsInfo u\<rparr> = u
      \<and> (upload_index_identity (uploadCheckpoint.PartsInfo u)
            \<longrightarrow> upload_index_identity (uploadCheckpoint.PartsInfo u'))"
proof -
  let ?k = "nat (uploadPartInfo.PartNumber p - 1)"
  let ?u' = "u\<lparr>uploadCheckpoint.PartsInfo := (uploadCheckpoint.PartsInfo u)[?k := p]\<rparr>"
  have k: "?k < length (uploadCheckpoint.PartsInfo u)" using assms by simp
  have pn: "uploadPartInfo.PartNumber p = int ?k + 1" using assms by simp
  have "uploadCheckpoint_UpdatePartsInfo u p = Inr ?u'"
    using assms by (simp add: uploadCheckpoint_UpdatePartsInfo_def)
  moreover have "upload_index_identity (uploadCheckpoint.PartsInfo u)
            \<longrightarrow> upload_index_identity (uploadCheckpoint.PartsInfo ?u')"
    using upload_index_identity_update [OF _ k pn] by simp
  ultimately show ?thesis using k by simp
qed

text \<open>
  C6. For a part record whose part number is between 1 and the length of the part list,
  \<^verbatim>\<open>UpdatePartsInfo\<close> (of the download and of the upload checkpoint) returns without a
  panic, writes the record into the slot at index part number minus one, and leaves
  every other slot and every other field of the checkpoint as it was; the index
  identity of the part list is preserved.
\<close>

theorem UpdatePartsInfo_frame:
  "(1 \<le> downloadPartInfo.PartNumber dp
      \<and> downloadPartInfo.PartNumber dp \<le> int (length (downloadCheckpoint.PartsInfo c))
    \<longrightarrow> (\<exists>c'. downloadCheckpoint_UpdatePartsInfo c dp = Inr c'
      \<and> length (downloadCheckpoint.PartsInfo c') = length (downloadCheckpoint.PartsInfo c)
      \<and> downloadCheckpoint.PartsInfo c' ! nat (downloadPartInfo.PartNumber dp - 1) = dp
      \<and> (\<forall>j < length (downloadCheckpoint.PartsInfo c).
            j \<noteq> nat (downloadPartInfo.PartNumber dp - 1)
            \<longrightarrow> downloadCheckpoint.PartsInfo c' ! j = downloadCheckpoint.PartsInfo c ! j)
      \<and> c'\<lparr>downloadCheckpoint.PartsInfo := downloadCheckpoint.PartsInfo c\<rparr> = c
      \<and> (download_index_identity (downloadCheckpoint.PartsInfo c)
            \<longrightarrow> download_index_identity (downloadCheckpoint.PartsInfo c'))))
   \<and> (1 \<le> uploadPartInfo.PartNumber up
      \<and> uploadPartInfo.PartNumber up \<le> int (length (uploadCheckpoint.PartsInfo u))
    \<longrightarrow> (\<exists>u'. uploadCheckpoint_UpdatePartsInfo u up = Inr u'
      \<and> length (uploadCheckpoint.PartsInfo u') = length (uploadCheckpoint.PartsInfo u)
      \<and> uploadCheckpoint.PartsInfo u' ! nat (uploadPartInfo.PartNumber up - 1) = up
      \<and> (\<forall>j < length (uploadCheckpoint.PartsInfo u).
            j \<noteq> nat (uploadPartInfo.PartNumber up - 1)
            \<longrightarrow> uploadCheckpoint.PartsInfo u' ! j = uploadCheckpoint.PartsInfo u ! j)
      \<and> u'\<lparr>uploadCheckpoint.PartsInfo := uploadCheckpoint.PartsInfo u\<rparr> = u
      \<and> (upload_index_identity (uploadCheckpoint.PartsInfo u)
            \<longrightarrow> upload_index_identity (uploadCheckpoint.PartsInfo u'))))"
  using downloadCheckpoint_UpdatePartsInfo_frame [of dp c]
    uploadCheckpoint_UpdatePartsInfo_frame [of up u]
  by blast

theorem UpdatePartsInfo_frame_witness:
  "(\<exists>c'. downloadCheckpoint_UpdatePartsInfo dcp2 dpart2 = Inr c'
      \<and> downloadCheckpoint.PartsInfo c' ! 1 = dpart2
      \<and> downloadCheckpoint.PartsInfo c' ! 0 = downloadCheckpoint.PartsInfo dcp2 ! 0
      \<and> c'\<lparr>downloadCheckpoint.PartsInfo := downloadCheckpoint.PartsInfo dcp2\<rparr> = dcp2
      \<and> download_index_identity (downloadCheckpoint.PartsInfo c'))
   \<and> (\<exists>u'. uploadCheckpoint_UpdatePartsInfo cp2 upart2 = Inr u'
      \<and> uploadCheckpoint.PartsInfo u' ! 1 = upart2
      \<and> uploadCheckpoint.PartsInfo u' ! 0 = uploadCheckpoint.PartsInfo cp2 ! 0
      \<and> u'\<lparr>uploadCheckpoint.PartsInfo := uploadCheckpoint.PartsInfo cp2\<rparr> = cp2
      \<and> upload_index_identity (uploadCheckpoint.PartsInfo u'))"
proof -
  have d: "1 \<le> downloadPartInfo.PartNumber dpart2
      \<and> downloadPartInfo.PartNumber dpart2 \<le> int (length (downloadCheckpoint.PartsInfo dcp2))"
    by (simp add: dpart2_def dcp2_def)
  have di: "download_index_identity (downloadCheckpoint.PartsInfo dcp2)"
    by (simp add: dcp2_def download_index_identity_def upt_rec)
  have u: "1 \<le> uploadPartInfo.PartNumber upart2
      \<and> uploadPartInfo.PartNumber upart2 \<le> int (length (uploadCheckpoint.PartsInfo cp2))"
    by (simp add: upart2_def cp2_def)
  have ui: "upload_index_identity (uploadCheckpoint.PartsInfo cp2)"
    by (simp add: cp2_def upload_index_identity_def upt_rec)
  have dk: "nat (downloadPartInfo.PartNumber dpart2 - 1) = 1" by (simp add: dpart2_def)
  have uk: "nat (uploadPartInfo.PartNumber upart2 - 1) = 1" by (simp add: upart2_def)
  have dl: "0 < length (downloadCheckpoint.PartsInfo dcp2)" by (simp add: dcp2_def)
  have ul: "0 < length (uploadCheckpoint.PartsInfo cp2)" by (simp add: cp2_def)
  from UpdatePartsInfo_frame [of dpart2 dcp2 upart2 cp2] d di dk dl
  have "\<exists>c'. downloadCheckpoint_UpdatePartsInfo dcp2 dpart2 = Inr c'
      \<and> downloadCheckpoint.PartsInfo c' ! 1 = dpart2
      \<and> downloadCheckpoint.PartsInfo c' ! 0 = downloadCheckpoint.PartsInfo dcp2 ! 0
      \<and> c'\<lparr>downloadCheckpoint.PartsInfo := downloadCheckpoint.PartsInfo dcp2\<rparr> = dcp2
      \<and> download_index_identity (downloadCheckpoint.PartsInfo c')"
    by (metis zero_neq_one)
  moreover from UpdatePartsInfo_frame [of dpart2 dcp2 upart2 cp2] u ui uk ul
  have "\<exists>u'. uploadCheckpoint_UpdatePartsInfo cp2 upart2 = Inr u'
      \<and> uploadCheckpoint.PartsInfo u' ! 1 = upart2
      \<and> uploadCheckpoint.PartsInfo u' ! 0 = uploadCheckpoint.PartsInfo cp2 ! 0
      \<and> u'\<lparr>uploadCheckpoint.PartsInfo := uploadCheckpoint.PartsInfo cp2\<rparr> = cp2
      \<and> upload_index_identity (uploadCheckpoint.PartsInfo u')"
    by (metis zero_neq_one)
  ultimately show ?thesis by blast
qed

section \<open>Writing a checkpoint\<close>

lemma downloadCheckpoint_WriteToFile_cases:
  "(case marshal c of
      Inl err \<Rightarrow>
        downloadCheckpoint_WriteToFile marshal writeFile c fs
          = (Some (TosClientError (Error err) err), fs)
    | Inr buffer \<Rightarrow>
        (case writeFile (downloadCheckpoint.checkpointPath c) buffer perm_0666 fs of
           (Some err, fs') \<Rightarrow>
             downloadCheckpoint_WriteToFile marshal writeFile c fs
               = (Some (TosClientError (Error err) err), fs')
         | (None, fs') \<Rightarrow>
             downloadCheckpoint_WriteToFile marshal writeFile c fs = (None, fs')))"
  by (simp add: downloadCheckpoint_WriteToFile_def newTosClientError_def
        split: sum.split prod.split option.split)

lemma uploadCheckpoint_WriteToFile_cases:
  "(case marshal u of
      Inl err \<Rightarrow>
        uploadCheckpoint_WriteToFile marshal writeFile u fs
          = (Some (TosClientError (Error err) err), fs)
    | Inr buffer \<Rightarrow>
        (case writeFile (uploadCheckpoint.checkpointPath u) buffer perm_0666 fs of
           (Some err, fs') \<Rightarrow>
             uploadCheckpoint_WriteToFile marshal writeFile u fs
               = (Some (TosClientError (Error err) err), fs')
         | (None, fs') \<Rightarrow>
             uploadCheckpoint_WriteToFile marshal writeFile u fs = (None, fs')))"
  by (simp add: uploadCheckpoint_WriteToFile_def newTosClientError_def
        split: sum.split prod.split option.split)

text \<open>
  C9. \<^verbatim>\<open>WriteToFile\<close> (of the download and of the upload checkpoint) returns an error
  exactly when serialising the checkpoint fails or writing the serialised bytes to the
  checkpoint file fails, and the error is then a client error that wraps the cause; it
  returns \<^verbatim>\<open>nil\<close> exactly when the whole checkpoint was serialised and these bytes were
  written to the checkpoint path without error, and it then leaves the file system
  that the write left.
\<close>

theorem WriteToFile_reports_failures:
  "((fst (downloadCheckpoint_WriteToFile dmarshal writeFile c fs) \<noteq> None)
      = ((\<exists>err. dmarshal c = Inl err)
         \<or> (\<exists>buffer. dmarshal c = Inr buffer
              \<and> fst (writeFile (downloadCheckpoint.checkpointPath c) buffer perm_0666 fs) \<noteq> None)))
   \<and> (\<forall>e. fst (downloadCheckpoint_WriteToFile dmarshal writeFile c fs) = Some e
        \<longrightarrow> is_client_error e
          \<and> (\<exists>cause. e = TosClientError (Error cause) cause
                \<and> (dmarshal c = Inl cause
                    \<or> (\<exists>buffer. dmarshal c = Inr buffer
                         \<and> fst (writeFile (downloadCheckpoint.checkpointPath c) buffer perm_0666 fs)
                             = Some cause))))
   \<and> ((fst (downloadCheckpoint_WriteToFile dmarshal writeFile c fs) = None)
      = (\<exists>buffer. dmarshal c = Inr buffer
           \<and> writeFile (downloadCheckpoint.checkpointPath c) buffer perm_0666 fs
               = (None, snd (downloadCheckpoint_WriteToFile dmarshal writeFile c fs))))
   \<and> ((fst (uploadCheckpoint_WriteToFile umarshal writeFile u fs) \<noteq> None)
      = ((\<exists>err. umarshal u = Inl err)
         \<or> (\<exists>buffer. umarshal u = Inr buffer
              \<and> fst (writeFile (uploadCheckpoint.checkpointPath u) buffer perm_0666 fs) \<noteq> None)))
   \<and> (\<forall>e. fst (uploadCheckpoint_WriteToFile umarshal writeFile u fs) = Some e
        \<longrightarrow> is_client_error e
          \<and> (\<exists>cause. e = TosClientError (Error cause) cause
                \<and> (umarshal u = Inl cause
                    \<or> (\<exists>buffer. umarshal u = Inr buffer
                         \<and> fst (writeFile (uploadCheckpoint.checkpointPath u) buffer perm_0666 fs)
                             = Some cause))))
   \<and> ((fst (uploadCheckpoint_WriteToFile umarshal writeFile u fs) = None)
      = (\<exists>buffer. umarshal u = Inr buffer
           \<and> writeFile (uploadCheckpoint.checkpointPath u) buffer perm_0666 fs
               = (None, snd (uploadCheckpoint_WriteToFile umarshal writeFile u fs))))"
proof -
  have d: "((fst (downloadCheckpoint_WriteToFile dmarshal writeFile c fs) \<noteq> None)
      = ((\<exists>err. dmarshal c = Inl err)
         \<or> (\<exists>buffer. dmarshal c = Inr buffer
              \<and> fst (writeFile (downloadCheckpoint.checkpointPath c) buffer perm_0666 fs) \<noteq> None)))
   \<and> (\<forall>e. fst (downloadCheckpoint_WriteToFile dmarshal writeFile c fs) = Some e
        \<longrightarrow> is_client_error e
          \<and> (\<exists>cause. e = TosClientError (Error cause) cause
                \<and> (dmarshal c = Inl cause
                    \<or> (\<exists>buffer. dmarshal c = Inr buffer
                         \<and> fst (writeFile (downloadCheckpoint.checkpointPath c) buffer perm_0666 fs)
                             = Some cause))))
   \<and> ((fst (downloadCheckpoint_WriteToFile dmarshal writeFile c fs) = None)
      = (\<exists>buffer. dmarshal c = Inr buffer
           \<and> writeFile (downloadCheckpoint.checkpointPath c) buffer perm_0666 fs
               = (None, snd (downloadCheckpoint_WriteToFile dmarshal writeFile c fs))))"
    using downloadCheckpoint_WriteToFile_cases [where marshal = dmarshal and c = c and writeFile = writeFile and fs = fs]
    by (cases "dmarshal c";
        cases "writeFile (downloadCheckpoint.checkpointPath c) (projr (dmarshal c)) perm_0666 fs";
        cases "fst (writeFile (downloadCheckpoint.checkpointPath c) (projr (dmarshal c)) perm_0666 fs)")
       auto
  have u: "((fst (uploadCheckpoint_WriteToFile umarshal writeFile u fs) \<noteq> None)
      = ((\<exists>err. umarshal u = Inl err)
         \<or> (\<exists>buffer. umarshal u = Inr buffer
              \<and> fst (writeFile (uploadCheckpoint.checkpointPath u) buffer perm_0666 fs) \<noteq> None)))
   \<and> (\<forall>e. fst (uploadCheckpoint_WriteToFile umarshal writeFile u fs) = Some e
        \<longrightarrow> is_client_error e
          \<and> (\<exists>cause. e = TosClientError (Error cause) cause
                \<and> (umarshal u = Inl cause
                    \<or> (\<exists>buffer. umarshal u = Inr buffer
                         \<and> fst (writeFile (uploadCheckpoint.checkpointPath u) buffer perm_0666 fs)
                             = Some cause))))
   \<and> ((fst (uploadCheckpoint_WriteToFile umarshal writeFile u fs) = None)
      = (\<exists>buffer. umarshal u = Inr buffer
           \<and> writeFile (uploadCheckpoint.checkpointPath u) buffer perm_0666 fs
               = (None, snd (uploadCheckpoint_WriteToFile umarshal writeFile u fs))))"
    using uploadCheckpoint_WriteToFile_cases [where marshal = umarshal and u = u and writeFile = writeFile and fs = fs]
    by (cases "umarshal u";
        cases "writeFile (uploadCheckpoint.checkpointPath u) (projr (umarshal u)) perm_0666 fs";
        cases "fst (writeFile (uploadCheckpoint.checkpointPath u) (projr (umarshal u)) perm_0666 fs)")
       auto
  from d u show ?thesis by blast
qed

theorem WriteToFile_reports_failures_witness:
  "fst (downloadCheckpoint_WriteToFile marshal_ok write_full dcp2 [])
     = Some (TosClientError ''no space left on device'' (GoError ''no space left on device''))
   \<and> is_client_error (the (fst (downloadCheckpoint_WriteToFile marshal_ok write_full dcp2 [])))
   \<and> fst (uploadCheckpoint_WriteToFile marshal_ok write_full cp2 [])
     = Some (TosClientError ''no space left on device'' (GoError ''no space left on device''))
   \<and> downloadCheckpoint_WriteToFile marshal_ok write_ok dcp2 [] = (None, [(''cp'', [123])])
   \<and> uploadCheckpoint_WriteToFile marshal_ok write_ok cp2 [] = (None, [(''cp'', [123])])"
proof -
  note full = WriteToFile_reports_failures [where dmarshal = marshal_ok and umarshal = marshal_ok and writeFile = write_full and c = dcp2 and u = cp2 and fs = "[]"]
  note ok = WriteToFile_reports_failures [where dmarshal = marshal_ok and umarshal = marshal_ok and writeFile = write_ok and c = dcp2 and u = cp2 and fs = "[]"]
  have 1: "fst (downloadCheckpoint_WriteToFile marshal_ok write_full dcp2 [])
     = Some (TosClientError ''no space left on device'' (GoError ''no space left on device''))"
    using full by (auto simp: marshal_ok_def write_full_def)
  have 2: "is_client_error (the (fst (downloadCheckpoint_WriteToFile marshal_ok write_full dcp2 [])))"
    using 1 by simp
  have 3: "fst (uploadCheckpoint_WriteToFile marshal_ok write_full cp2 [])
     = Some (TosClientError ''no space left on device'' (GoError ''no space left on device''))"
    using full by (auto simp: marshal_ok_def write_full_def)
  have 4: "downloadCheckpoint_WriteToFile marshal_ok write_ok dcp2 [] = (None, [(''cp'', [123])])"
    using ok by (auto simp: marshal_ok_def write_ok_def dcp2_def prod_eq_iff)
  have 5: "uploadCheckpoint_WriteToFile marshal_ok write_ok cp2 [] = (None, [(''cp'', [123])])"
    using ok by (auto simp: marshal_ok_def write_ok_def cp2_def prod_eq_iff)
  from 1 2 3 4 5 show ?thesis by blast
qed

section \<open>Checkpoint validation\<close>

text \<open>
  C1, as the claim states it, fails for the upload checkpoint: \<open>cp2\<close> is valid for its
  file, and it stays valid when its part size changes from 5 to 6.
\<close>

theorem upload_Valid_ignores_PartSize_counterexample:
  "uploadCheckpoint_Valid cp2 stat2 ''b'' ''k'' ''f''
   \<and> uploadCheckpoint.PartSize (cp2\<lparr>uploadCheckpoint.PartSize := 6\<rparr>) \<noteq> uploadCheckpoint.PartSize cp2
   \<and> uploadCheckpoint_Valid (cp2\<lparr>uploadCheckpoint.PartSize := 6\<rparr>) stat2 ''b'' ''k'' ''f''"
  by (simp add: uploadCheckpoint_Valid_def cp2_def stat2_def)

text \<open>
  C1, amended. \<^verbatim>\<open>downloadCheckpoint.Valid\<close> returns true exactly when bucket, key,
  version id, part size, the four conditional-request headers, the two SSE-C
  parameters, the four live remote-metadata fields (entity tag, checksum,
  last-modified, size) and the local file path each equal the stored ones, so a
  change of any single one of them makes it false. \<^verbatim>\<open>uploadCheckpoint.Valid\<close> returns
  true exactly when the stored upload id is not empty and bucket, key, local file path,
  file size and modification time (in Unix seconds) each equal the stored ones; it does
  not compare the part size.
\<close>

theorem Valid_all_or_nothing:
  "downloadCheckpoint_Valid c input head
     = (downloadCheckpoint.Bucket c = DownloadFileInput.Bucket input
        \<and> downloadCheckpoint.Key c = DownloadFileInput.Key input
        \<and> downloadCheckpoint.VersionID c = DownloadFileInput.VersionID input
        \<and> downloadCheckpoint.PartSize c = DownloadFileInput.PartSize input
        \<and> downloadCheckpoint.IfMatch c = DownloadFileInput.IfMatch input
        \<and> downloadCheckpoint.IfModifiedSince c = DownloadFileInput.IfModifiedSince input
        \<and> downloadCheckpoint.IfNoneMatch c = DownloadFileInput.IfNoneMatch input
        \<and> downloadCheckpoint.IfUnmodifiedSince c = DownloadFileInput.IfUnmodifiedSince input
        \<and> downloadCheckpoint.SSECAlgorithm c = DownloadFileInput.SSECAlgorithm input
        \<and> downloadCheckpoint.SSECKeyMD5 c = DownloadFileInput.SSECKeyMD5 input
        \<and> downloadObjectInfo.Etag (ObjectInfo c) = HeadObjectV2Output.ETag head
        \<and> downloadObjectInfo.HashCrc64ecma (ObjectInfo c) = HeadObjectV2Output.HashCrc64ecma head
        \<and> downloadObjectInfo.LastModified (ObjectInfo c) = HeadObjectV2Output.LastModified head
        \<and> downloadObjectInfo.ObjectSize (ObjectInfo c) = HeadObjectV2Output.ContentLength head
        \<and> downloadFileInfo.FilePath (downloadCheckpoint.FileInfo c) = DownloadFileInput.FilePath input)
   \<and> uploadCheckpoint_Valid u uploadFileStat bucketName key uploadFile
     = (UploadID u \<noteq> []
        \<and> uploadCheckpoint.Bucket u = bucketName
        \<and> uploadCheckpoint.Key u = key
        \<and> uploadCheckpoint.FilePath u = uploadFile
        \<and> fileInfo.Size (uploadCheckpoint.FileInfo u) = os_FileInfo.Size uploadFileStat
        \<and> fileInfo.LastModified (uploadCheckpoint.FileInfo u) = ModTime_Unix uploadFileStat)
   \<and> uploadCheckpoint_Valid (u\<lparr>uploadCheckpoint.PartSize := partSize\<rparr>)
         uploadFileStat bucketName key uploadFile
     = uploadCheckpoint_Valid u uploadFileStat bucketName key uploadFile"
proof -
  have d: "downloadCheckpoint_Valid c input head
     = (downloadCheckpoint.Bucket c = DownloadFileInput.Bucket input
        \<and> downloadCheckpoint.Key c = DownloadFileInput.Key input
        \<and> downloadCheckpoint.VersionID c = DownloadFileInput.VersionID input
        \<and> downloadCheckpoint.PartSize c = DownloadFileInput.PartSize input
        \<and> downloadCheckpoint.IfMatch c = DownloadFileInput.IfMatch input
        \<and> downloadCheckpoint.IfModifiedSince c = DownloadFileInput.IfModifiedSince input
        \<and> downloadCheckpoint.IfNoneMatch c = DownloadFileInput.IfNoneMatch input
        \<and> downloadCheckpoint.IfUnmodifiedSince c = DownloadFileInput.IfUnmodifiedSince input
        \<and> downloadCheckpoint.SSECAlgorithm c = DownloadFileInput.SSECAlgorithm input
        \<and> downloadCheckpoint.SSECKeyMD5 c = DownloadFileInput.SSECKeyMD5 input
        \<and> downloadObjectInfo.Etag (ObjectInfo c) = HeadObjectV2Output.ETag head
        \<and> downloadObjectInfo.HashCrc64ecma (ObjectInfo c) = HeadObjectV2Output.HashCrc64ecma head
        \<and> downloadObjectInfo.LastModified (ObjectInfo c) = HeadObjectV2Output.LastModified head
        \<and> downloadObjectInfo.ObjectSize (ObjectInfo c) = HeadObjectV2Output.ContentLength head
        \<and> downloadFileInfo.FilePath (downloadCheckpoint.FileInfo c) = DownloadFileInput.FilePath input)"
    unfolding downloadCheckpoint_Valid_def by (simp only: if_bool_eq_conj) blast
  have u: "uploadCheckpoint_Valid u uploadFileStat bucketName key uploadFile
     = (UploadID u \<noteq> []
        \<and> uploadCheckpoint.Bucket u = bucketName
        \<and> uploadCheckpoint.Key u = key
        \<and> uploadCheckpoint.FilePath u = uploadFile
        \<and> fileInfo.Size (uploadCheckpoint.FileInfo u) = os_FileInfo.Size uploadFileStat
        \<and> fileInfo.LastModified (uploadCheckpoint.FileInfo u) = ModTime_Unix uploadFileStat)"
    unfolding uploadCheckpoint_Valid_def by (simp only: if_bool_eq_conj) blast
  have p: "uploadCheckpoint_Valid (u\<lparr>uploadCheckpoint.PartSize := partSize\<rparr>)
         uploadFileStat bucketName key uploadFile
     = uploadCheckpoint_Valid u uploadFileStat bucketName key uploadFile"
    by (simp add: uploadCheckpoint_Valid_def)
  from d u p show ?thesis by (intro conjI)
qed

theorem Valid_all_or_nothing_witness:
  "downloadCheckpoint_Valid dcp2 dinput2 head2
   \<and> \<not> downloadCheckpoint_Valid dcp2 dinput2 (head2\<lparr>HeadObjectV2Output.ETag := ''changed''\<rparr>)
   \<and> \<not> downloadCheckpoint_Valid dcp2 (dinput2\<lparr>DownloadFileInput.PartSize := 6\<rparr>) head2
   \<and> uploadCheckpoint_Valid cp2 stat2 ''b'' ''k'' ''f''
   \<and> \<not> uploadCheckpoint_Valid cp2 (stat2\<lparr>os_FileInfo.Size := 11\<rparr>) ''b'' ''k'' ''f''
   \<and> uploadCheckpoint_Valid (cp2\<lparr>uploadCheckpoint.PartSize := 6\<rparr>) stat2 ''b'' ''k'' ''f''"
proof -
  have 1: "downloadCheckpoint_Valid dcp2 dinput2 head2"
    using Valid_all_or_nothing [of dcp2 dinput2 head2]
    by (simp add: dcp2_def dinput2_def head2_def)
  have 2: "\<not> downloadCheckpoint_Valid dcp2 dinput2 (head2\<lparr>HeadObjectV2Output.ETag := ''changed''\<rparr>)"
    using Valid_all_or_nothing [of dcp2 dinput2 "head2\<lparr>HeadObjectV2Output.ETag := ''changed''\<rparr>"]
    by (simp add: dcp2_def dinput2_def head2_def)
  have 3: "\<not> downloadCheckpoint_Valid dcp2 (dinput2\<lparr>DownloadFileInput.PartSize := 6\<rparr>) head2"
    using Valid_all_or_nothing [of dcp2 "dinput2\<lparr>DownloadFileInput.PartSize := 6\<rparr>" head2]
    by (simp add: dcp2_def dinput2_def head2_def)
  have 4: "uploadCheckpoint_Valid cp2 stat2 ''b'' ''k'' ''f''"
    using Valid_all_or_nothing [where u = cp2 and uploadFileStat = stat2 and bucketName = "''b''"
        and key = "''k''" and uploadFile = "''f''"]
    by (simp add: cp2_def stat2_def)
  have 5: "\<not> uploadCheckpoint_Valid cp2 (stat2\<lparr>os_FileInfo.Size := 11\<rparr>) ''b'' ''k'' ''f''"
    using Valid_all_or_nothing [where u = cp2 and uploadFileStat = "stat2\<lparr>os_FileInfo.Size := 11\<rparr>"
        and bucketName = "''b''" and key = "''k''" and uploadFile = "''f''"]
    by (simp add: cp2_def stat2_def)
  have 6: "uploadCheckpoint_Valid (cp2\<lparr>uploadCheckpoint.PartSize := 6\<rparr>) stat2 ''b'' ''k'' ''f''"
    using Valid_all_or_nothing [where u = cp2 and uploadFileStat = stat2 and bucketName = "''b''"
        and key = "''k''" and uploadFile = "''f''" and partSize = 6] 4
    by blast
  from 1 2 3 4 5 6 show ?thesis by blast
qed

section \<open>The jitter\<close>

text \<open>
  C7 fails on the code: the sleep that \<^verbatim>\<open>calcSleep\<close> computes for attempt \<open>i\<close> is the
  backoff entry at index \<open>i\<close> whatever jitter was set, so it is always exactly the base
  duration.
\<close>

theorem calcSleep_ignores_jitter:
  "calcSleep (SetJitter jit r) i = calcSleep r i
   \<and> calcSleep (SetJitter (1 / 4) (newRetryer [DefaultRetryBackoffBase])) 0
       = Inr DefaultRetryBackoffBase
   \<and> jitter (SetJitter (1 / 4) (newRetryer [DefaultRetryBackoffBase])) = 1 / 4"
proof -
  have same: "backoff (SetJitter jit r) = backoff r"
    by (simp add: SetJitter_def)
  then have 1: "calcSleep (SetJitter jit r) i = calcSleep r i"
    by (simp add: calcSleep_def)
  have 2: "calcSleep (SetJitter (1 / 4) (newRetryer [DefaultRetryBackoffBase])) 0
       = Inr DefaultRetryBackoffBase"
    by (simp add: calcSleep_def SetJitter_def newRetryer_def)
  have 3: "jitter (SetJitter (1 / 4) (newRetryer [DefaultRetryBackoffBase])) = 1 / 4"
    by (simp add: SetJitter_def newRetryer_def)
  from 1 2 3 show ?thesis by blast
qed

section \<open>The retry loop\<close>

lemma Run_loop_exit:
  "\<not> (i < length (backoff r) \<and> classifier ferr = Retry) \<Longrightarrow>
   Run_loop rt r ctx work classifier i ferr s tr = Inr (ferr, s, tr)"
  by (subst Run_loop.simps) auto


lemma Run_loop_retry:
  "i < length (backoff r) \<Longrightarrow> classifier ferr = Retry \<Longrightarrow>
   worthToRetry rt ctx (backoff r ! i) s \<Longrightarrow>
   Run_loop rt r ctx work classifier i ferr s tr =
     Run_loop rt r ctx work classifier (i + 1)
       (fst (work (Sleep rt (backoff r ! i) s))) (snd (work (Sleep rt (backoff r ! i) s)))
       (tr @ [Slept (backoff r ! i), Worked (fst (work (Sleep rt (backoff r ! i) s)))])"
  by (subst Run_loop.simps) (simp add: calcSleep_def split: prod.split)

lemma worthToRetry_no_cancel:
  "\<forall>c. ctx = Some c \<longrightarrow> (\<forall>s. Err c s = None \<and> Deadline c s = None) \<Longrightarrow>
   worthToRetry rt ctx waitTime s"
  by (simp add: worthToRetry_def split: option.split)

lemma Run_loop_exhausts:
  assumes ctx: "\<forall>c. ctx = Some c \<longrightarrow> (\<forall>s. Err c s = None \<and> Deadline c s = None)"
    and fails: "\<forall>s. fst (work s) \<noteq> None"
    and retry: "\<forall>e. classifier (Some e) = Retry"
  shows "k = length (backoff r) - i \<Longrightarrow> i \<le> length (backoff r) \<Longrightarrow> ferr \<noteq> None \<Longrightarrow>
    \<exists>ferr' s' tr'. Run_loop rt r ctx work classifier i ferr s tr = Inr (ferr', s', tr @ tr')
      \<and> length (filter is_Worked tr') = length (backoff r) - i
      \<and> filter is_Slept tr' = map Slept (drop i (backoff r))
      \<and> ferr' \<noteq> None
      \<and> (if tr' = [] then ferr' = ferr else last tr' = Worked ferr')"
proof (induction k arbitrary: i ferr s tr)
  case 0
  then have "\<not> (i < length (backoff r) \<and> classifier ferr = Retry)" by simp
  then have "Run_loop rt r ctx work classifier i ferr s tr = Inr (ferr, s, tr @ [])"
    by (simp add: Run_loop_exit)
  moreover have "length (backoff r) - i = 0" "drop i (backoff r) = []" using 0 by simp_all
  ultimately show ?case using \<open>ferr \<noteq> None\<close> by (intro exI [of _ ferr] exI [of _ s] exI [of _ "[]"]) simp
next
  case (Suc k)
  let ?d = "backoff r ! i"
  let ?w = "work (Sleep rt ?d s)"
  have i: "i < length (backoff r)" using Suc.prems by simp
  have cls: "classifier ferr = Retry" using retry Suc.prems by (cases ferr) auto
  have step: "Run_loop rt r ctx work classifier i ferr s tr =
     Run_loop rt r ctx work classifier (i + 1) (fst ?w) (snd ?w) (tr @ [Slept ?d, Worked (fst ?w)])"
    using i cls ctx by (intro Run_loop_retry worthToRetry_no_cancel)
  have "k = length (backoff r) - (i + 1)" "i + 1 \<le> length (backoff r)" "fst ?w \<noteq> None"
    using Suc.prems fails by simp_all
  from Suc.IH [OF this, of "snd ?w" "tr @ [Slept ?d, Worked (fst ?w)]"]
  obtain ferr' s' tr' where
    run: "Run_loop rt r ctx work classifier (i + 1) (fst ?w) (snd ?w) (tr @ [Slept ?d, Worked (fst ?w)])
            = Inr (ferr', s', (tr @ [Slept ?d, Worked (fst ?w)]) @ tr')"
    and cnt: "length (filter is_Worked tr') = length (backoff r) - (i + 1)"
    and slp: "filter is_Slept tr' = map Slept (drop (i + 1) (backoff r))"
    and ne: "ferr' \<noteq> None"
    and lst: "if tr' = [] then ferr' = fst ?w else last tr' = Worked ferr'"
    by blast
  let ?tr = "[Slept ?d, Worked (fst ?w)] @ tr'"
  have 1: "Run_loop rt r ctx work classifier i ferr s tr = Inr (ferr', s', tr @ ?tr)"
    using step run by simp
  have 2: "length (filter is_Worked ?tr) = length (backoff r) - i"
    using cnt i by (simp add: is_Worked_def)
  have "drop i (backoff r) = ?d # drop (i + 1) (backoff r)"
    using i by (simp add: Cons_nth_drop_Suc)
  then have 3: "filter is_Slept ?tr = map Slept (drop i (backoff r))"
    using slp by (simp add: is_Slept_def)
  have 4: "last ?tr = Worked ferr'"
    using lst by (cases "tr' = []") simp_all
  show ?case
    using 1 2 3 4 ne by (intro exI [of _ ferr'] exI [of _ s'] exI [of _ ?tr]) simp
qed

text \<open>
  C2. With a context that is never cancelled and has no deadline, a \<open>work\<close> that fails
  on every call and a classifier that answers Retry to every error, \<^verbatim>\<open>Run\<close> returns,
  having called \<open>work\<close> exactly one plus the length of the backoff sequence times and
  slept each backoff duration in turn, and what it returns is the error of the last
  call.
\<close>

theorem Run_exhausts_backoff:
  assumes "\<forall>c. ctx = Some c \<longrightarrow> (\<forall>s. Err c s = None \<and> Deadline c s = None)"
    and "\<forall>s. fst (work s) \<noteq> None"
    and "\<forall>e. classifier (Some e) = Retry"
  shows "\<exists>ferr s' tr. Run rt r ctx work classifier s = Inr (ferr, s', tr)
      \<and> length (filter is_Worked tr) = 1 + length (backoff r)
      \<and> filter is_Slept tr = map Slept (backoff r)
      \<and> ferr \<noteq> None \<and> last tr = Worked ferr"
proof -
  let ?w = "work s"
  have first: "fst ?w \<noteq> None" using assms(2) by simp
  from Run_loop_exhausts [OF assms refl _ first, of 0 r rt "snd ?w" "[Worked (fst ?w)]"]
  obtain ferr' s' tr' where
    run: "Run_loop rt r ctx work classifier 0 (fst ?w) (snd ?w) [Worked (fst ?w)]
            = Inr (ferr', s', [Worked (fst ?w)] @ tr')"
    and cnt: "length (filter is_Worked tr') = length (backoff r)"
    and slp: "filter is_Slept tr' = map Slept (backoff r)"
    and ne: "ferr' \<noteq> None"
    and lst: "if tr' = [] then ferr' = fst ?w else last tr' = Worked ferr'"
    by auto
  let ?tr = "[Worked (fst ?w)] @ tr'"
  have 1: "Run rt r ctx work classifier s = Inr (ferr', s', ?tr)"
    using run by (simp add: Run_def case_prod_unfold)
  have 2: "length (filter is_Worked ?tr) = 1 + length (backoff r)"
    using cnt by (simp add: is_Worked_def)
  have 3: "filter is_Slept ?tr = map Slept (backoff r)"
    using slp by (simp add: is_Slept_def)
  have 4: "last ?tr = Worked ferr'"
    using lst by (cases "tr' = []") simp_all
  show ?thesis
    using 1 2 3 4 ne by (intro exI [of _ ferr'] exI [of _ s'] exI [of _ ?tr]) simp
qed

lemma Run_two_backoffs:
  "Run clock_runtime (newRetryer [100, 100]) None failing_work retry_errors
       \<lparr>clock = 0, attempts = 0\<rparr>
     = Inr (Some (GoError ''timeout''), \<lparr>clock = 200, attempts = 3\<rparr>,
            [Worked (Some (GoError ''timeout'')), Slept 100, Worked (Some (GoError ''timeout'')),
             Slept 100, Worked (Some (GoError ''timeout''))])"
  by (simp add: Run_def Run_loop_retry Run_loop_exit newRetryer_def failing_work_def
        retry_errors_def clock_runtime_def worthToRetry_def)

theorem Run_exhausts_backoff_witness:
  "\<exists>ferr s' tr.
      Run clock_runtime (newRetryer [100, 100]) None failing_work retry_errors
          \<lparr>clock = 0, attempts = 0\<rparr> = Inr (ferr, s', tr)
      \<and> attempts s' = 3
      \<and> length (filter is_Worked tr) = 1 + length (backoff (newRetryer [100, 100]))
      \<and> filter is_Slept tr = map Slept (backoff (newRetryer [100, 100]))
      \<and> ferr \<noteq> None \<and> last tr = Worked ferr"
proof -
  have 1: "\<forall>c. (None :: clock_state Context option) = Some c
             \<longrightarrow> (\<forall>s. Err c s = None \<and> Deadline c s = None)"
    by simp
  have 2: "\<forall>s. fst (failing_work s) \<noteq> None" by (simp add: failing_work_def)
  have 3: "\<forall>e. retry_errors (Some e) = Retry" by (simp add: retry_errors_def)
  from Run_exhausts_backoff [OF 1 2 3, of clock_runtime "newRetryer [100, 100]"
      "\<lparr>clock = 0, attempts = 0\<rparr>"]
  show ?thesis by (auto simp: Run_two_backoffs)
qed

lemma deadline_exceeded_iff:
  fixes now waitTime deadline :: int64
  assumes "- (2 ^ 63) \<le> sint now + sint waitTime" "sint now + sint waitTime < 2 ^ 63"
  shows "(deadline <s now + waitTime) = (sint deadline < sint now + sint waitTime)"
proof -
  have "sint (now + waitTime) = sint now + sint waitTime"
    using assms by (simp add: sint_word_ariths signed_take_bit_int_eq_self)
  then show ?thesis by (simp add: word_sless_alt)
qed



section \<open>Cancellation\<close>

lemma step_call_length [simp]: "length (calls (step_call u sys)) = length (calls sys)"
  by (simp add: step_call_def split: prod.split)

lemma step_call_isAbort [simp]:
  "v < length (calls sys) \<Longrightarrow> fst (calls (step_call u sys) ! v) = fst (calls sys ! v)"
  by (cases "u = v") (simp_all add: step_call_def split: prod.split)

lemma step_call_other:
  "v < length (calls sys) \<Longrightarrow> u \<noteq> v \<Longrightarrow> calls (step_call u sys) ! v = calls sys ! v"
  by (simp add: step_call_def split: prod.split)

lemma step_call_self:
  "u < length (calls sys) \<Longrightarrow>
   calls (step_call u sys) ! u
     = (fst (calls sys ! u), fst (Cancel_step u (fst (calls sys ! u)) (snd (calls sys ! u)) (shared sys)))
   \<and> shared (step_call u sys)
     = snd (Cancel_step u (fst (calls sys ! u)) (snd (calls sys ! u)) (shared sys))"
  by (simp add: step_call_def split: prod.split)

lemma step_call_out: "\<not> u < length (calls sys) \<Longrightarrow> step_call u sys = sys"
  by (simp add: step_call_def)

lemma cleaner_effect_const [simp]:
  "cleaner_effect (c\<lparr>called := x\<rparr>) t = cleaner_effect c t"
  "cleaner_effect (c\<lparr>cancelHandle := h\<rparr>) t = cleaner_effect c t"
  by (simp_all add: cleaner_effect_def)

lemma aborter_effect_const [simp]:
  "aborter_effect (c\<lparr>called := x\<rparr>) t = aborter_effect c t"
  "aborter_effect (c\<lparr>cancelHandle := h\<rparr>) t = aborter_effect c t"
  by (simp_all add: aborter_effect_def)

lemma effects_at_const [simp]:
  "effects_at (c\<lparr>called := x\<rparr>) t b p = effects_at c t b p"
  "effects_at (c\<lparr>cancelHandle := h\<rparr>) t b p = effects_at c t b p"
  by (cases p; simp)+

lemma Cancel_effects_const [simp]:
  "Cancel_effects (c\<lparr>called := x\<rparr>) t b = Cancel_effects c t b"
  "Cancel_effects (c\<lparr>cancelHandle := h\<rparr>) t b = Cancel_effects c t b"
  by (simp_all add: Cancel_effects_def)

text \<open>What one action of a call does, program point by program point.\<close>

lemma Cancel_step_loser:
  "\<not> winning p \<Longrightarrow> called (canc st) \<noteq> 0 \<or> p \<noteq> AtCAS \<Longrightarrow>
   snd (Cancel_step u b p st) = st \<and> \<not> winning (fst (Cancel_step u b p st))"
  by (cases p) (auto simp: CompareAndSwap_called_def)

lemma Cancel_step_win:
  "called (canc st) = 0 \<Longrightarrow>
   fst (Cancel_step u b AtCAS st) = (if b then AtCleaner else AtClose)
   \<and> called (canc (snd (Cancel_step u b AtCAS st))) \<noteq> 0
   \<and> effects (snd (Cancel_step u b AtCAS st)) = effects st @ [CasWon u]
   \<and> cleaner (canc (snd (Cancel_step u b AtCAS st))) = cleaner (canc st)
   \<and> aborter (canc (snd (Cancel_step u b AtCAS st))) = aborter (canc st)"
  by (simp add: CompareAndSwap_called_def)

lemma Cancel_step_winner:
  assumes "winning p" "effects st = effects_at (canc st) u b p" "p \<noteq> AtClose \<longrightarrow> b"
    "called (canc st) \<noteq> 0"
  shows "called (canc (snd (Cancel_step u b p st))) \<noteq> 0
   \<and> (if winning (fst (Cancel_step u b p st))
       then effects (snd (Cancel_step u b p st))
              = effects_at (canc (snd (Cancel_step u b p st))) u b (fst (Cancel_step u b p st))
            \<and> (fst (Cancel_step u b p st) \<noteq> AtClose \<longrightarrow> b)
       else prefix (effects (snd (Cancel_step u b p st)))
              (Cancel_effects (canc (snd (Cancel_step u b p st))) u b))"
proof (cases p)
  case AtCleaner
  with assms show ?thesis
    by (simp add: run_cleaner_def cleaner_effect_def split: option.split)
next
  case AtAborter
  with assms show ?thesis
    by (simp add: run_aborter_def aborter_effect_def cleaner_effect_def split: option.split)
next
  case AtClose
  with assms show ?thesis
    by (auto simp: close_cancelHandle_def Cancel_effects_def split: option.split chan.split)
qed (use assms in simp_all)

lemma one_winner_start: "one_winner (start c w isAborts)"
  by (simp add: one_winner_def start_def)

lemma one_winner_step:
  assumes inv: "one_winner sys"
  shows "one_winner (step_call u sys)"
proof (cases "u < length (calls sys)")
  case False
  then show ?thesis using inv by (simp add: step_call_out)
next
  case u: True
  let ?b = "fst (calls sys ! u)" and ?p = "snd (calls sys ! u)" and ?st = "shared sys"
  let ?p' = "fst (Cancel_step u ?b ?p ?st)" and ?st' = "snd (Cancel_step u ?b ?p ?st)"
  let ?sys' = "step_call u sys"
  have self: "calls ?sys' ! u = (?b, ?p')" and sh: "shared ?sys' = ?st'"
    using step_call_self [OF u] by simp_all
  have other: "\<And>v. v < length (calls sys) \<Longrightarrow> v \<noteq> u \<Longrightarrow> calls ?sys' ! v = calls sys ! v"
    using step_call_other by metis
  from inv consider
    (idle) "effects ?st = []" "\<forall>v < length (calls sys). \<not> winning (snd (calls sys ! v))"
  | (won) t where "t < length (calls sys)" "called (canc ?st) \<noteq> 0"
      "\<forall>v < length (calls sys). v \<noteq> t \<longrightarrow> \<not> winning (snd (calls sys ! v))"
      "if winning (snd (calls sys ! t))
       then effects ?st = effects_at (canc ?st) t (fst (calls sys ! t)) (snd (calls sys ! t))
            \<and> (snd (calls sys ! t) \<noteq> AtClose \<longrightarrow> fst (calls sys ! t))
       else prefix (effects ?st) (Cancel_effects (canc ?st) t (fst (calls sys ! t)))"
    unfolding one_winner_def by blast
  then show ?thesis
  proof cases
    case idle
    have nw: "\<not> winning ?p" using idle(2) u by simp
    show ?thesis
    proof (cases "?p = AtCAS \<and> called (canc ?st) = 0")
      case True
      then have p: "?p = AtCAS" and z: "called (canc ?st) = 0" by simp_all
      note win = Cancel_step_win [OF z, of u ?b]
      have p': "?p' = (if ?b then AtCleaner else AtClose)" using win p by simp
      have "called (canc (shared ?sys')) \<noteq> 0" using win p sh by simp
      moreover have "\<forall>v < length (calls ?sys'). v \<noteq> u \<longrightarrow> \<not> winning (snd (calls ?sys' ! v))"
        using idle(2) other by simp
      moreover have "winning (snd (calls ?sys' ! u))" using self p' by simp
      moreover have "effects (shared ?sys')
          = effects_at (canc (shared ?sys')) u (fst (calls ?sys' ! u)) (snd (calls ?sys' ! u))"
        using win p sh self p' idle(1) by simp
      moreover have "snd (calls ?sys' ! u) \<noteq> AtClose \<longrightarrow> fst (calls ?sys' ! u)"
        using self p' by simp
      ultimately show ?thesis
        unfolding one_winner_def using u by (intro disjI2 exI [of _ u]) simp
    next
      case False
      then have "called (canc ?st) \<noteq> 0 \<or> ?p \<noteq> AtCAS" by blast
      from Cancel_step_loser [OF nw this, of u ?b]
      have same: "?st' = ?st" and nw': "\<not> winning ?p'" by simp_all
      have "effects (shared ?sys') = []" using sh same idle(1) by simp
      moreover have "\<forall>v < length (calls ?sys'). \<not> winning (snd (calls ?sys' ! v))"
      proof (intro allI impI)
        fix v assume "v < length (calls ?sys')"
        then show "\<not> winning (snd (calls ?sys' ! v))"
          using idle(2) other [of v] self nw' by (cases "v = u") simp_all
      qed
      ultimately show ?thesis unfolding one_winner_def by blast
    qed
  next
    case (won t)
    show ?thesis
    proof (cases "u = t \<and> winning ?p")
      case True
      from True have ut: "u = t" by blast
      from True have w: "winning ?p" by blast
      have eff: "effects ?st = effects_at (canc ?st) u ?b ?p" and ab: "?p \<noteq> AtClose \<longrightarrow> ?b"
        using won(4) ut w by simp_all
      note st = Cancel_step_winner [OF w eff ab won(2)]
      have "called (canc (shared ?sys')) \<noteq> 0" using st sh by simp
      moreover have "\<forall>v < length (calls ?sys'). v \<noteq> u \<longrightarrow> \<not> winning (snd (calls ?sys' ! v))"
        using won(3) other ut by simp
      moreover have "if winning (snd (calls ?sys' ! u))
          then effects (shared ?sys')
                 = effects_at (canc (shared ?sys')) u (fst (calls ?sys' ! u)) (snd (calls ?sys' ! u))
               \<and> (snd (calls ?sys' ! u) \<noteq> AtClose \<longrightarrow> fst (calls ?sys' ! u))
          else prefix (effects (shared ?sys'))
                 (Cancel_effects (canc (shared ?sys')) u (fst (calls ?sys' ! u)))"
        using st [THEN conjunct2] by (simp only: sh self fst_conv snd_conv)
      ultimately show ?thesis
        unfolding one_winner_def using u by (intro disjI2 exI [of _ u]) simp
    next
      case False
      then have nw: "\<not> winning ?p" using won(3) u by blast
      from Cancel_step_loser [OF nw, of ?st u ?b] won(2)
      have same: "?st' = ?st" and nw': "\<not> winning ?p'" by simp_all
      have t': "calls ?sys' ! t = (fst (calls sys ! t), snd (calls ?sys' ! t))"
        "winning (snd (calls ?sys' ! t)) = winning (snd (calls sys ! t))"
        using other [OF won(1)] self nw nw' by (cases "t = u"; simp)+
      have "called (canc (shared ?sys')) \<noteq> 0" using sh same won(2) by simp
      moreover have "\<forall>v < length (calls ?sys'). v \<noteq> t \<longrightarrow> \<not> winning (snd (calls ?sys' ! v))"
      proof (intro allI impI)
        fix v assume "v < length (calls ?sys')" "v \<noteq> t"
        then show "\<not> winning (snd (calls ?sys' ! v))"
          using won(3) other [of v] self nw' by (cases "v = u") simp_all
      qed
      moreover have "if winning (snd (calls ?sys' ! t))
          then effects (shared ?sys')
                 = effects_at (canc (shared ?sys')) t (fst (calls ?sys' ! t)) (snd (calls ?sys' ! t))
               \<and> (snd (calls ?sys' ! t) \<noteq> AtClose \<longrightarrow> fst (calls ?sys' ! t))
          else prefix (effects (shared ?sys'))
                 (Cancel_effects (canc (shared ?sys')) t (fst (calls ?sys' ! t)))"
      proof (cases "t = u")
        case True
        then show ?thesis using won(4) nw nw' sh same self by simp
      next
        case False
        then show ?thesis using won(4) sh same other [OF won(1)] by simp
      qed
      ultimately show ?thesis
        unfolding one_winner_def using won(1) by (intro disjI2 exI [of _ t]) simp
    qed
  qed
qed

lemma one_winner_exec: "one_winner sys \<Longrightarrow> one_winner (exec sched sys)"
  unfolding exec_def by (induction sched arbitrary: sys) (simp_all add: one_winner_step)

lemma exec_calls:
  "length (calls (exec sched sys)) = length (calls sys)
   \<and> (\<forall>v < length (calls sys). fst (calls (exec sched sys) ! v) = fst (calls sys ! v))"
  unfolding exec_def by (induction sched arbitrary: sys) simp_all

lemma effects_at_prefix:
  "winning p \<Longrightarrow> p \<noteq> AtClose \<longrightarrow> b \<Longrightarrow> prefix (effects_at c t b p) (Cancel_effects c t b)"
  by (cases p) (simp_all add: Cancel_effects_def)

lemma prefix_Cancel_effects:
  assumes "prefix es (Cancel_effects c t b)"
  shows "length (filter is_Cleaned es) \<le> 1 \<and> length (filter is_Aborted es) \<le> 1
    \<and> (filter (\<lambda>e. is_Cleaned e \<or> is_Aborted e) es = []
        \<or> (b \<and> hd es = CasWon t \<and> filter is_CasWon es = [CasWon t]
            \<and> filter (\<lambda>e. is_Cleaned e \<or> is_Aborted e) es
                \<in> {[Cleaned t], [Aborted t], [Cleaned t, Aborted t]}))"
  using assms
  by (cases "cleaner c"; cases "aborter c"; cases b)
     (auto simp: Cancel_effects_def cleaner_effect_def aborter_effect_def prefix_Cons
        is_Cleaned_def is_Aborted_def is_CasWon_def)

lemma one_winner_effects:
  assumes "one_winner sys"
  shows "effects (shared sys) = []
     \<or> (\<exists>t < length (calls sys).
          prefix (effects (shared sys)) (Cancel_effects (canc (shared sys)) t (fst (calls sys ! t))))"
proof -
  from assms consider
    (idle) "effects (shared sys) = []"
  | (won) t where "t < length (calls sys)"
      "if winning (snd (calls sys ! t))
       then effects (shared sys)
              = effects_at (canc (shared sys)) t (fst (calls sys ! t)) (snd (calls sys ! t))
            \<and> (snd (calls sys ! t) \<noteq> AtClose \<longrightarrow> fst (calls sys ! t))
       else prefix (effects (shared sys))
              (Cancel_effects (canc (shared sys)) t (fst (calls sys ! t)))"
    unfolding one_winner_def by blast
  then show ?thesis
  proof cases
    case idle
    then show ?thesis by simp
  next
    case (won t)
    have "prefix (effects (shared sys)) (Cancel_effects (canc (shared sys)) t (fst (calls sys ! t)))"
      using won(2) effects_at_prefix [of "snd (calls sys ! t)" "fst (calls sys ! t)"]
      by (cases "winning (snd (calls sys ! t))") simp_all
    with won(1) show ?thesis by blast
  qed
qed

lemma Cancel_after_flag:
  "called (canc st) \<noteq> 0 \<Longrightarrow> Cancel t b st = (None, st)"
  by (simp add: Cancel_def CompareAndSwap_called_def)

text \<open>
  C4. Take any number of calls of \<^verbatim>\<open>Cancel\<close> with any \<^verbatim>\<open>isAbort\<close> arguments on one
  canceler, and any schedule of their actions: calls one after the other, or
  interleaved in any way. At every moment the cleaner has run at most once and the
  aborter at most once; if either has run, then one call \<open>t\<close> with \<^verbatim>\<open>isAbort\<close> true won
  the compare-and-swap, it is the only call that won it and the first effect of all
  is its win, and the runs of the cleaner and the aborter are its own, the cleaner
  before the aborter. Once the flag is set, a call of \<^verbatim>\<open>Cancel\<close> returns with the state
  unchanged, and so does every action of a call that has not yet passed its
  compare-and-swap.
\<close>

theorem Cancel_effects_once:
  "(let es = effects (shared (exec sched (start c w isAborts))) in
      length (filter is_Cleaned es) \<le> 1 \<and> length (filter is_Aborted es) \<le> 1
      \<and> (filter (\<lambda>e. is_Cleaned e \<or> is_Aborted e) es = []
          \<or> (\<exists>t < length isAborts. isAborts ! t \<and> hd es = CasWon t
                \<and> filter is_CasWon es = [CasWon t]
                \<and> filter (\<lambda>e. is_Cleaned e \<or> is_Aborted e) es
                    \<in> {[Cleaned t], [Aborted t], [Cleaned t, Aborted t]})))
   \<and> (called (canc st) \<noteq> 0 \<longrightarrow> Cancel t' isAbort st = (None, st))
   \<and> (called (canc st) \<noteq> 0 \<and> (p = AtNilCheck \<or> p = AtCAS)
        \<longrightarrow> snd (Cancel_step t' isAbort p st) = st
            \<and> fst (Cancel_step t' isAbort p st) \<in> {AtCAS, Returned})"
proof -
  let ?sys = "exec sched (start c w isAborts)"
  let ?es = "effects (shared ?sys)"
  have len: "length (calls ?sys) = length isAborts"
    and arg: "\<forall>v < length isAborts. fst (calls ?sys ! v) = isAborts ! v"
    using exec_calls [of sched "start c w isAborts"] by (simp_all add: start_def)
  have "one_winner ?sys" by (intro one_winner_exec one_winner_start)
  from one_winner_effects [OF this] consider
    (idle) "?es = []"
  | (won) t where "t < length isAborts"
      "prefix ?es (Cancel_effects (canc (shared ?sys)) t (isAborts ! t))"
    using len arg by auto
  then have 1: "length (filter is_Cleaned ?es) \<le> 1 \<and> length (filter is_Aborted ?es) \<le> 1
      \<and> (filter (\<lambda>e. is_Cleaned e \<or> is_Aborted e) ?es = []
          \<or> (\<exists>t < length isAborts. isAborts ! t \<and> hd ?es = CasWon t
                \<and> filter is_CasWon ?es = [CasWon t]
                \<and> filter (\<lambda>e. is_Cleaned e \<or> is_Aborted e) ?es
                    \<in> {[Cleaned t], [Aborted t], [Cleaned t, Aborted t]}))"
  proof cases
    case idle
    then show ?thesis by simp
  next
    case (won t)
    from prefix_Cancel_effects [OF won(2)] won(1) show ?thesis by blast
  qed
  have 2: "called (canc st) \<noteq> 0 \<longrightarrow> Cancel t' isAbort st = (None, st)"
    by (simp add: Cancel_after_flag)
  have 3: "called (canc st) \<noteq> 0 \<and> (p = AtNilCheck \<or> p = AtCAS)
        \<longrightarrow> snd (Cancel_step t' isAbort p st) = st
            \<and> fst (Cancel_step t' isAbort p st) \<in> {AtCAS, Returned}"
    by (cases "cancelHandle (canc st)") (auto simp: CompareAndSwap_called_def)
  from 1 2 3 show ?thesis by (simp add: Let_def)
qed

lemma step_thread_local:
  "u < length (calls sys) \<Longrightarrow> calls sys ! u = (b, p) \<Longrightarrow>
   step_call u sys
     = \<lparr>shared = snd (Cancel_step u b p (shared sys)),
        calls = (calls sys)[u := (b, fst (Cancel_step u b p (shared sys)))]\<rparr>"
  by (simp add: step_call_def split: prod.split)

lemma exec_Cons: "exec (u # sched) sys = exec sched (step_call u sys)"
  by (simp add: exec_def)

lemma exec_Nil: "exec [] sys = sys"
  by (simp add: exec_def)

text \<open>
  The five actions of a call, taken without another call in between, are \<^verbatim>\<open>Cancel\<close>.
\<close>

lemma Cancel_is_five_steps:
  assumes "u < length (calls sys)" "calls sys ! u = (b, AtNilCheck)"
  shows "shared (exec [u, u, u, u, u] sys) = snd (Cancel u b (shared sys))"
proof -
  have "\<And>sys p. u < length (calls sys) \<Longrightarrow> calls sys ! u = (b, p) \<Longrightarrow>
      u < length (calls (step_call u sys))
      \<and> calls (step_call u sys) ! u = (b, fst (Cancel_step u b p (shared sys)))
      \<and> shared (step_call u sys) = snd (Cancel_step u b p (shared sys))"
    by (simp add: step_thread_local)
  note step = this
  let ?st = "shared sys"
  show ?thesis
  proof (cases "cancelHandle (canc ?st) = None")
    case True
    then show ?thesis
      using assms
      by (simp add: exec_Cons exec_Nil step_thread_local Cancel_def)
  next
    case h: False
    show ?thesis
    proof (cases "called (canc ?st) = 0")
      case False
      then show ?thesis
        using assms h
        by (simp add: exec_Cons exec_Nil step_thread_local Cancel_def CompareAndSwap_called_def)
    next
      case True
      then show ?thesis
        using assms h
        by (cases b; cases "cancelHandle (canc ?st)")
           (simp_all add: exec_Cons exec_Nil step_thread_local Cancel_def CompareAndSwap_called_def
              close_cancelHandle_def run_cleaner_def run_aborter_def
              split: option.split chan.split)
    qed
  qed
qed

lemma exec_interleaved:
  "shared (exec [0, 1, 1, 0, 1, 0, 1, 1] (start canceler0 [] [True, True]))
     = \<lparr>canc = canceler0\<lparr>called := 1, cancelHandle := Some ChanClosed\<rparr>,
        world = [''clean'', ''abort''],
        effects = [CasWon 1, Cleaned 1, Aborted 1, HandleClosed 1]\<rparr>"
  by (simp add: exec_Cons exec_Nil step_call_def start_def canceler0_def
        CompareAndSwap_called_def run_cleaner_def run_aborter_def close_cancelHandle_def)

theorem Cancel_effects_once_witness:
  "effects (shared (exec [0, 1, 1, 0, 1, 0, 1, 1] (start canceler0 [] [True, True])))
     = [CasWon 1, Cleaned 1, Aborted 1, HandleClosed 1]
   \<and> world (shared (exec [0, 1, 1, 0, 1, 0, 1, 1] (start canceler0 [] [True, True])))
     = [''clean'', ''abort'']
   \<and> length (filter is_Cleaned
        (effects (shared (exec [0, 1, 1, 0, 1, 0, 1, 1] (start canceler0 [] [True, True]))))) \<le> 1
   \<and> length (filter is_Aborted
        (effects (shared (exec [0, 1, 1, 0, 1, 0, 1, 1] (start canceler0 [] [True, True]))))) \<le> 1
   \<and> called (canc (shared (exec [0, 1, 1, 0, 1, 0, 1, 1] (start canceler0 [] [True, True])))) \<noteq> 0
   \<and> Cancel 0 True (shared (exec [0, 1, 1, 0, 1, 0, 1, 1] (start canceler0 [] [True, True])))
     = (None, shared (exec [0, 1, 1, 0, 1, 0, 1, 1] (start canceler0 [] [True, True])))
   \<and> snd (Cancel_step 0 True AtCAS
        (shared (exec [0, 1, 1, 0, 1, 0, 1, 1] (start canceler0 [] [True, True]))))
     = shared (exec [0, 1, 1, 0, 1, 0, 1, 1] (start canceler0 [] [True, True]))"
proof -
  let ?st = "shared (exec [0, 1, 1, 0, 1, 0, 1, 1] (start canceler0 [] [True, True]))"
  note once = Cancel_effects_once [where sched = "[0, 1, 1, 0, 1, 0, 1, 1]" and c = canceler0
      and w = "[]" and isAborts = "[True, True]" and st = ?st and t' = 0 and isAbort = True
      and p = AtCAS]
  have flag: "called (canc ?st) \<noteq> 0" unfolding exec_interleaved by simp
  have 1: "effects ?st = [CasWon 1, Cleaned 1, Aborted 1, HandleClosed 1]"
    and 2: "world ?st = [''clean'', ''abort'']"
    unfolding exec_interleaved by simp_all
  have 3: "length (filter is_Cleaned (effects ?st)) \<le> 1"
    and 4: "length (filter is_Aborted (effects ?st)) \<le> 1"
    using once by (simp_all add: Let_def)
  have 5: "Cancel 0 True ?st = (None, ?st)"
    using once flag by blast
  have 6: "snd (Cancel_step 0 True AtCAS ?st) = ?st"
    using once flag by blast
  from 1 2 3 4 flag 5 6 show ?thesis by blast
qed

section \<open>Progress events\<close>







text \<open>What one action of a call does to the call.\<close>

lemma Read_step_inputs:
  "ret_n (fst (Read_step T t c st)) = ret_n c \<and> ret_err (fst (Read_step T t c st)) = ret_err c"
  by (cases "point c") (simp_all add: Read_step_def)

lemma Read_step_call_counts [simp]:
  "call_counts (fst (Read_step T t c st)) = call_counts c"
  using Read_step_inputs [of T t c st] by (simp add: call_counts_def)




lemma step_read_out: "\<not> u < length (reads sys) \<Longrightarrow> step_read T u sys = sys"
  by (simp add: step_read_def)

lemma step_read_in:
  "u < length (reads sys) \<Longrightarrow>
   reads (step_read T u sys)
     = (reads sys)[u := fst (Read_step T u (reads sys ! u) (counters sys))]
   \<and> counters (step_read T u sys) = snd (Read_step T u (reads sys ! u) (counters sys))"
  by (simp add: step_read_def split: prod.split)

lemma step_read_length [simp]: "length (reads (step_read T u sys)) = length (reads sys)"
  by (cases "u < length (reads sys)") (simp_all add: step_read_out step_read_in)




























end
